theory Spec2Isabelle
  imports Complex_Main "HOL-Library.Multiset"
begin

section \<open>Product REST API: router, validation and resource handlers\<close>

text \<open>
  The development follows the two source files of the API: the router, which
  declares one route per operation and puts an ordered chain of validation
  rules and the error-collecting middleware in front of the handler, and the
  six resource handlers, which talk to the persistence layer and shape the
  JSON response.

  The handlers and the route declarations are translated from the source.
  The persistence layer (the Product model and the query primitives of the
  object-relational mapper), the validation predicates and the
  error-collecting middleware are not among the sources; they are modelled
  from the specification, and each such definition says so.
\<close>

subsection \<open>JSON values and requests\<close>

text \<open>
  A request body is a JSON object. Only scalar field values are modelled;
  numbers are rationals written in plain decimal notation (no binary floating
  point, no exponent notation). A field that is absent from the object reads
  as \<open>None\<close>, which is JavaScript's \<open>undefined\<close>.
\<close>

datatype jvalue = JNull | JBool bool | JNum rat | JStr string

type_synonym jobject = "(string \<times> jvalue) list"

text \<open>
  \<open>req.params.id\<close> is the text of the path segment matched by \<open>:id\<close>;
  \<open>req.body\<close> is the parsed JSON body.
\<close>

record request =
  params_id :: string
  body :: jobject

subsection \<open>Decimal text\<close>

definition is_digit :: "char \<Rightarrow> bool" where
  "is_digit c = (c \<in> set ''0123456789'')"

definition digit_val :: "char \<Rightarrow> nat" where
  "digit_val c = of_char c - 48"

definition digit_char :: "nat \<Rightarrow> char" where
  "digit_char d = char_of (48 + d)"

definition nat_of_digits :: "string \<Rightarrow> nat" where
  "nat_of_digits ds = foldl (\<lambda>n c. 10 * n + digit_val c) 0 ds"

text \<open>An optional leading sign: the flag says whether it was a minus.\<close>

definition strip_sign :: "string \<Rightarrow> bool \<times> string" where
  "strip_sign s =
     (case s of
        [] \<Rightarrow> (False, [])
      | c # cs \<Rightarrow>
          if c = CHR ''-'' then (True, cs)
          else if c = CHR ''+'' then (False, cs)
          else (False, s))"

function show_nat :: "nat \<Rightarrow> string" where
  "show_nat n =
     (if n < 10 then [digit_char n]
      else show_nat (n div 10) @ [digit_char (n mod 10)])"
  by pat_completeness auto
termination
  by (relation "measure id") auto

declare show_nat.simps [simp del]

text \<open>
  Digits of the fraction \<open>f / d\<close> (with \<open>f < d\<close>), at most as many as the
  first argument allows.
\<close>

primrec frac_digits :: "nat \<Rightarrow> nat \<Rightarrow> nat \<Rightarrow> string" where
  "frac_digits 0 f d = []"
| "frac_digits (Suc k) f d =
     (if f = 0 then []
      else digit_char ((10 * f) div d) # frac_digits k ((10 * f) mod d) d)"

definition show_rat :: "rat \<Rightarrow> string" where
  "show_rat r =
     (let (n, d) = quotient_of r;
          a = nat \<bar>n\<bar>;
          b = nat d
      in (if n < 0 then ''-'' else '''')
         @ show_nat (a div b)
         @ (if a mod b = 0 then '''' else ''.'' @ frac_digits 20 (a mod b) b))"

text \<open>The text of an integer, as a client writes an id into the path.\<close>

definition show_int :: "int \<Rightarrow> string" where
  "show_int i = (if i < 0 then ''-'' @ show_nat (nat (- i)) else show_nat (nat i))"

subsection \<open>Validation predicates\<close>

text \<open>
  Modelled from the spec: the predicates of the validation library, which is
  not among the sources. The router names them (\<open>isInt\<close>, \<open>notEmpty\<close>,
  \<open>isNumeric\<close>, \<open>isBoolean\<close>); the specification reads them as "must parse
  as an integer", "must be non-empty", "must be numeric" and "must be
  boolean". Each judges the text of the field.
\<close>

text \<open>
  Modelled from the spec: the text under which the validation library sees a
  field. A missing field and \<open>null\<close> read as the empty text.
\<close>

definition text_of :: "jvalue option \<Rightarrow> string" where
  "text_of v =
     (case v of
        None \<Rightarrow> ''''
      | Some JNull \<Rightarrow> ''''
      | Some (JBool b) \<Rightarrow> (if b then ''true'' else ''false'')
      | Some (JNum r) \<Rightarrow> show_rat r
      | Some (JStr s) \<Rightarrow> s)"

text \<open>
  Modelled from the spec: "must parse as an integer", that is an optional sign
  followed by one or more decimal digits.
\<close>

definition isInt :: "string \<Rightarrow> bool" where
  "isInt s = (let ds = snd (strip_sign s) in ds \<noteq> [] \<and> list_all is_digit ds)"

text \<open>Modelled from the spec: "must be non-empty".\<close>

definition notEmpty :: "string \<Rightarrow> bool" where
  "notEmpty s = (s \<noteq> [])"

text \<open>
  Modelled from the spec: "must be numeric", that is an optional sign, then
  digits, or optional digits, a point and one or more digits.
\<close>

definition isNumeric :: "string \<Rightarrow> bool" where
  "isNumeric s =
     (let r = snd (strip_sign s);
          ip = takeWhile is_digit r
      in case dropWhile is_digit r of
           [] \<Rightarrow> ip \<noteq> []
         | c # fp \<Rightarrow> c = CHR ''.'' \<and> fp \<noteq> [] \<and> list_all is_digit fp)"

text \<open>Modelled from the spec: "must be boolean", one of four texts.\<close>

definition isBoolean :: "string \<Rightarrow> bool" where
  "isBoolean s = (s \<in> set [''true'', ''false'', ''1'', ''0''])"

subsection \<open>The numbers and integers that texts denote\<close>

definition int_of_text :: "string \<Rightarrow> int option" where
  "int_of_text s =
     (if isInt s
      then (let (neg, ds) = strip_sign s
            in Some (if neg then - int (nat_of_digits ds) else int (nat_of_digits ds)))
      else None)"

definition number_of_text :: "string \<Rightarrow> rat option" where
  "number_of_text s =
     (if isNumeric s
      then (let (neg, r) = strip_sign s;
                ip = takeWhile is_digit r;
                fp = drop 1 (dropWhile is_digit r);
                m = of_nat (nat_of_digits ip) + of_nat (nat_of_digits fp) / 10 ^ length fp
            in Some (if neg then - m else m))
      else None)"

subsection \<open>JavaScript's conversion of a value to a number\<close>

text \<open>
  The router's custom price rule is the JavaScript function
  \<open>value => value > 0\<close>, applied to the field's value itself. The comparison
  converts its left operand to a number, which is not-a-number, a finite
  number or an infinity. Numbers are rationals here, so nothing is rounded.
\<close>

datatype js_num = NaN | Finite rat | Pos_infinity | Neg_infinity

text \<open>
  White space and line terminators, each as the bytes that encode it: tab,
  line feed, vertical tab, form feed, carriage return, space, no-break space,
  the space separators U+1680, U+2000 to U+200A, U+202F, U+205F and U+3000,
  the line and paragraph separators, and the byte order mark.
\<close>

definition js_whitespace :: "string list" where
  "js_whitespace =
     [[CHR 0x09], [CHR 0x0A], [CHR 0x0B], [CHR 0x0C], [CHR 0x0D], [CHR 0x20],
      [CHR 0xC2, CHR 0xA0], [CHR 0xE1, CHR 0x9A, CHR 0x80],
      [CHR 0xE2, CHR 0x80, CHR 0x80], [CHR 0xE2, CHR 0x80, CHR 0x81],
      [CHR 0xE2, CHR 0x80, CHR 0x82], [CHR 0xE2, CHR 0x80, CHR 0x83],
      [CHR 0xE2, CHR 0x80, CHR 0x84], [CHR 0xE2, CHR 0x80, CHR 0x85],
      [CHR 0xE2, CHR 0x80, CHR 0x86], [CHR 0xE2, CHR 0x80, CHR 0x87],
      [CHR 0xE2, CHR 0x80, CHR 0x88], [CHR 0xE2, CHR 0x80, CHR 0x89],
      [CHR 0xE2, CHR 0x80, CHR 0x8A], [CHR 0xE2, CHR 0x80, CHR 0xA8],
      [CHR 0xE2, CHR 0x80, CHR 0xA9], [CHR 0xE2, CHR 0x80, CHR 0xAF],
      [CHR 0xE2, CHR 0x81, CHR 0x9F], [CHR 0xE3, CHR 0x80, CHR 0x80],
      [CHR 0xEF, CHR 0xBB, CHR 0xBF]]"

text \<open>
  Dropping leading occurrences of the given byte sequences, at most as many
  as the second argument allows.
\<close>

primrec strip_any :: "string list \<Rightarrow> nat \<Rightarrow> string \<Rightarrow> string" where
  "strip_any ws 0 s = s"
| "strip_any ws (Suc n) s =
     (case find (\<lambda>w. take (length w) s = w) ws of
        None \<Rightarrow> s
      | Some w \<Rightarrow> strip_any ws n (drop (length w) s))"

definition js_trim :: "string \<Rightarrow> string" where
  "js_trim s =
     (let l = strip_any js_whitespace (length s) s
      in rev (strip_any (map rev js_whitespace) (length l) (rev l)))"

text \<open>
  Binary, octal and hexadecimal literals: \<open>0b\<close>, \<open>0o\<close> or \<open>0x\<close> (in either
  case) followed by one or more digits of the radix, with no sign.
\<close>

definition radix_digit :: "nat \<Rightarrow> char \<Rightarrow> nat option" where
  "radix_digit b c =
     (let v = (if is_digit c then Some (digit_val c)
               else if c \<in> set ''abcdef'' then Some (of_char c - 87)
               else if c \<in> set ''ABCDEF'' then Some (of_char c - 55)
               else None)
      in case v of None \<Rightarrow> None | Some n \<Rightarrow> if n < b then Some n else None)"

definition radix_literal :: "string \<Rightarrow> nat option" where
  "radix_literal t =
     (case t of
        c0 # c1 # ds \<Rightarrow>
          (let b = (if c1 \<in> set ''xX'' then 16
                    else if c1 \<in> set ''oO'' then 8
                    else if c1 \<in> set ''bB'' then 2
                    else 0)
           in if c0 = CHR ''0'' \<and> b \<noteq> 0 \<and> ds \<noteq> [] \<and> list_all (\<lambda>c. radix_digit b c \<noteq> None) ds
              then Some (foldl (\<lambda>n c. b * n + (case radix_digit b c of None \<Rightarrow> 0 | Some k \<Rightarrow> k)) 0 ds)
              else None)
      | _ \<Rightarrow> None)"

text \<open>
  Decimal literals: an optional sign, then \<open>Infinity\<close> or digits with an
  optional point (digits must stand on at least one side of it) and an optional
  exponent part, \<open>e\<close> or \<open>E\<close> with an optional sign and one or more digits.
\<close>

definition js_exponent :: "string \<Rightarrow> int option" where
  "js_exponent e =
     (case e of
        [] \<Rightarrow> Some 0
      | c # x \<Rightarrow>
          if c \<in> set ''eE''
          then (let (neg, ds) = strip_sign x
                in if ds \<noteq> [] \<and> list_all is_digit ds
                   then Some (if neg then - int (nat_of_digits ds) else int (nat_of_digits ds))
                   else None)
          else None)"

definition js_decimal :: "string \<Rightarrow> js_num" where
  "js_decimal t =
     (let (neg, r) = strip_sign t
      in if r = ''Infinity'' then (if neg then Neg_infinity else Pos_infinity)
         else
           (let ip = takeWhile is_digit r;
                r1 = dropWhile is_digit r;
                dot = (r1 \<noteq> [] \<and> hd r1 = CHR ''.'');
                fp = (if dot then takeWhile is_digit (tl r1) else []);
                r2 = (if dot then dropWhile is_digit (tl r1) else r1)
            in if ip = [] \<and> fp = [] then NaN
               else
                 (case js_exponent r2 of
                    None \<Rightarrow> NaN
                  | Some e \<Rightarrow>
                      (let m = (of_nat (nat_of_digits ip)
                                  + of_nat (nat_of_digits fp) / 10 ^ length fp)
                               * (if e < 0 then 1 / 10 ^ nat (- e) else 10 ^ nat e)
                       in Finite (if neg then - m else m)))))"

text \<open>
  A text is trimmed of white space; the empty text is 0, a radix literal or a
  decimal literal its number, and any other text is not a number.
\<close>

definition js_number_of_text :: "string \<Rightarrow> js_num" where
  "js_number_of_text s =
     (let t = js_trim s
      in if t = [] then Finite 0
         else (case radix_literal t of
                 Some n \<Rightarrow> Finite (of_nat n)
               | None \<Rightarrow> js_decimal t))"

text \<open>
  A boolean counts as 1 or 0, \<open>null\<close> as 0, a text as the conversion above
  says, and a missing field is not a number. Not-a-number compares false.
\<close>

definition js_number :: "jvalue option \<Rightarrow> js_num" where
  "js_number v =
     (case v of
        None \<Rightarrow> NaN
      | Some JNull \<Rightarrow> Finite 0
      | Some (JBool b) \<Rightarrow> Finite (if b then 1 else 0)
      | Some (JNum r) \<Rightarrow> Finite r
      | Some (JStr s) \<Rightarrow> js_number_of_text s)"

definition greater_than_zero :: "jvalue option \<Rightarrow> bool" where
  "greater_than_zero v =
     (case js_number v of
        NaN \<Rightarrow> False
      | Finite r \<Rightarrow> r > 0
      | Pos_infinity \<Rightarrow> True
      | Neg_infinity \<Rightarrow> False)"

text \<open>
  What the numeric rule asks of a text after its sign, for use in the proofs.
\<close>

definition numeric_rest :: "string \<Rightarrow> bool" where
  "numeric_rest r =
     (case dropWhile is_digit r of
        [] \<Rightarrow> takeWhile is_digit r \<noteq> []
      | c # fp \<Rightarrow> c = CHR ''.'' \<and> fp \<noteq> [] \<and> list_all is_digit fp)"

subsection \<open>The Product table\<close>

text \<open>
  Modelled from the spec: the Product model is not among the sources. The
  specification's data model gives a product an integer primary key, a name
  (text), a price (number) and an availability flag.
\<close>

record product =
  id_pk :: int
  name :: string
  price :: rat
  availability :: bool

text \<open>
  Modelled from the spec: the table behind the object-relational mapper, as
  its rows in insertion order, and the counter from which the system
  generates the next primary key.
\<close>

record db =
  rows :: "product list"
  next_id :: int

definition empty_db :: db where
  "empty_db = \<lparr>rows = [], next_id = 1\<rparr>"

text \<open>
  A table is well formed when the primary key is unique. The empty table is
  well formed and every operation keeps a well-formed table well formed.
\<close>

definition db_ok :: "db \<Rightarrow> bool" where
  "db_ok d = distinct (map id_pk (rows d))"

text \<open>
  The data model's invariant of a product: a price above zero and a name that
  is not empty.
\<close>

definition valid_product :: "product \<Rightarrow> bool" where
  "valid_product p = (0 < price p \<and> name p \<noteq> [])"

text \<open>
  A database failure is not caught by any handler: the request ends in an
  unhandled rejection and no response is produced.
\<close>

datatype failure = Unhandled_rejection

text \<open>
  Modelled from the spec: what the typed columns make of a JSON value. The
  id column takes the integer the value denotes, the name column the value's
  text, the price column the number the value denotes, the availability
  column the truth value it denotes; a value that denotes none (and
  \<open>null\<close>) is a database failure.
\<close>

definition id_column :: "jvalue \<Rightarrow> int option" where
  "id_column v =
     (case v of
        JNum r \<Rightarrow> (if of_int \<lfloor>r\<rfloor> = r then Some \<lfloor>r\<rfloor> else None)
      | JStr s \<Rightarrow> int_of_text s
      | _ \<Rightarrow> None)"

definition name_column :: "jvalue \<Rightarrow> string option" where
  "name_column v = (case v of JNull \<Rightarrow> None | _ \<Rightarrow> Some (text_of (Some v)))"

definition price_column :: "jvalue \<Rightarrow> rat option" where
  "price_column v =
     (case v of
        JNum r \<Rightarrow> Some r
      | JStr s \<Rightarrow> number_of_text s
      | _ \<Rightarrow> None)"

definition availability_column :: "jvalue \<Rightarrow> bool option" where
  "availability_column v =
     (let t = text_of (Some v)
      in if t = ''true'' \<or> t = ''1'' then Some True
         else if t = ''false'' \<or> t = ''0'' then Some False
         else None)"

text \<open>
  Modelled from the spec: the find-all primitive with \<open>order: [['id', 'DESC']]\<close>.
\<close>

definition findAll :: "db \<Rightarrow> product list" where
  "findAll d = rev (sort_key id_pk (rows d))"

text \<open>
  Modelled from the spec: the find-by-key primitive. The key arrives as the
  text of the path parameter; a text that is no integer is a database
  failure.
\<close>

definition findByPk :: "string \<Rightarrow> db \<Rightarrow> failure + product option" where
  "findByPk key d =
     (case int_of_text key of
        None \<Rightarrow> Inl Unhandled_rejection
      | Some k \<Rightarrow> Inr (find (\<lambda>p. id_pk p = k) (rows d)))"

text \<open>
  Modelled from the spec: a supplied attribute overwrites the column, an
  attribute that is not supplied leaves what the column has, which for a new
  row is its default.
\<close>

definition assign :: "('a \<Rightarrow> 'b option) \<Rightarrow> 'a option \<Rightarrow> 'b \<Rightarrow> 'b option" where
  "assign column v old = (case v of None \<Rightarrow> Some old | Some x \<Rightarrow> column x)"

text \<open>
  Modelled from the spec: the primary key of a new row, with the counter it
  leaves. The key is generated by the system from the counter; an \<open>id\<close>
  that the values supply themselves is taken in its place and leaves the
  counter as it is.
\<close>

definition primary_key :: "jobject \<Rightarrow> db \<Rightarrow> (int \<times> int) option" where
  "primary_key values d =
     (case map_of values ''id'' of
        None \<Rightarrow> Some (next_id d, next_id d + 1)
      | Some JNull \<Rightarrow> Some (next_id d, next_id d + 1)
      | Some v \<Rightarrow> map_option (\<lambda>k. (k, next_id d)) (id_column v))"

text \<open>
  Modelled from the spec: the create primitive. The handler hands it the
  request body whole, and it inserts a new row with every attribute the body
  supplies: the name and the price, the availability, which defaults to
  \<open>true\<close> when the body has none, and the primary key. A key that a stored
  row already has is a database failure.
\<close>

definition create :: "jobject \<Rightarrow> db \<Rightarrow> failure + (product \<times> db)" where
  "create values d =
     (case Option.bind (map_of values ''name'') name_column of
        None \<Rightarrow> Inl Unhandled_rejection
      | Some n \<Rightarrow>
          (case Option.bind (map_of values ''price'') price_column of
             None \<Rightarrow> Inl Unhandled_rejection
           | Some pr \<Rightarrow>
               (case assign availability_column (map_of values ''availability'') True of
                  None \<Rightarrow> Inl Unhandled_rejection
                | Some a \<Rightarrow>
                    (case primary_key values d of
                       None \<Rightarrow> Inl Unhandled_rejection
                     | Some (k, counter) \<Rightarrow>
                         if k \<in> set (map id_pk (rows d)) then Inl Unhandled_rejection
                         else
                           (let p = \<lparr>id_pk = k, name = n, price = pr, availability = a\<rparr>
                            in Inr (p, \<lparr>rows = rows d @ [p], next_id = counter\<rparr>))))))"

text \<open>
  Modelled from the spec: persisting an instance writes it over the row with
  its primary key.
\<close>

definition save :: "product \<Rightarrow> db \<Rightarrow> db" where
  "save p d = d\<lparr>rows := map (\<lambda>q. if id_pk q = id_pk p then p else q) (rows d)\<rparr>"

text \<open>
  Modelled from the spec: the update primitive of an instance. It overwrites
  name, price and availability with the supplied values and persists the
  instance; the primary key is immutable, so an \<open>id\<close> among the values is
  not assigned.
\<close>

definition update :: "jobject \<Rightarrow> product \<Rightarrow> db \<Rightarrow> failure + (product \<times> db)" where
  "update values p d =
     (case assign name_column (map_of values ''name'') (name p) of
        None \<Rightarrow> Inl Unhandled_rejection
      | Some n \<Rightarrow>
          (case assign price_column (map_of values ''price'') (price p) of
             None \<Rightarrow> Inl Unhandled_rejection
           | Some pr \<Rightarrow>
               (case assign availability_column (map_of values ''availability'') (availability p) of
                  None \<Rightarrow> Inl Unhandled_rejection
                | Some a \<Rightarrow>
                    (let p' = p\<lparr>name := n, price := pr, availability := a\<rparr>
                     in Inr (p', save p' d)))))"

text \<open>Modelled from the spec: the destroy primitive removes the instance's row.\<close>

definition destroy :: "product \<Rightarrow> db \<Rightarrow> db" where
  "destroy p d = d\<lparr>rows := filter (\<lambda>q. id_pk q \<noteq> id_pk p) (rows d)\<rparr>"

subsection \<open>Responses\<close>

text \<open>
  The JSON bodies the handlers send: \<open>{data: [...]}\<close>, \<open>{data: product}\<close>,
  \<open>{data: 'text'}\<close> and \<open>{error: 'text'}\<close>; the middleware sends
  \<open>{errors: [...]}\<close>.
\<close>

datatype payload =
    Data_products "product list"
  | Data_product product
  | Data_text string
  | Error_text string
  | Errors "string list"

record response =
  status :: nat
  content :: payload

type_synonym handler = "request \<Rightarrow> db \<Rightarrow> failure + (db \<times> response)"

definition not_found :: response where
  "not_found = \<lparr>status = 404, content = Error_text ''Producto no Encontrado''\<rparr>"

subsection \<open>Resource handlers\<close>

text \<open>
  The six handlers of the source. Each takes the request and the table and
  returns the table it leaves with the response it sends; \<open>res.json\<close>
  without a status answers 200. A handler that finds no product returns its
  404 at once. \<open>updateProduct\<close> calls the update primitive, which persists
  the instance, and then saves the instance once more, as the source does.
\<close>

definition getProducts :: handler where
  "getProducts req d = Inr (d, \<lparr>status = 200, content = Data_products (findAll d)\<rparr>)"

definition getProductsById :: handler where
  "getProductsById req d =
     (case findByPk (params_id req) d of
        Inl e \<Rightarrow> Inl e
      | Inr None \<Rightarrow> Inr (d, not_found)
      | Inr (Some products) \<Rightarrow> Inr (d, \<lparr>status = 200, content = Data_product products\<rparr>))"

definition createProduct :: handler where
  "createProduct req d =
     (case create (body req) d of
        Inl e \<Rightarrow> Inl e
      | Inr (p, d') \<Rightarrow> Inr (d', \<lparr>status = 201, content = Data_product p\<rparr>))"

definition updateProduct :: handler where
  "updateProduct req d =
     (case findByPk (params_id req) d of
        Inl e \<Rightarrow> Inl e
      | Inr None \<Rightarrow> Inr (d, not_found)
      | Inr (Some products) \<Rightarrow>
          (case update (body req) products d of
             Inl e \<Rightarrow> Inl e
           | Inr (products', d') \<Rightarrow>
               Inr (save products' d', \<lparr>status = 200, content = Data_product products'\<rparr>)))"

definition updateAvailability :: handler where
  "updateAvailability req d =
     (case findByPk (params_id req) d of
        Inl e \<Rightarrow> Inl e
      | Inr None \<Rightarrow> Inr (d, not_found)
      | Inr (Some products) \<Rightarrow>
          (let products' = products\<lparr>availability := \<not> availability products\<rparr>
           in Inr (save products' d, \<lparr>status = 200, content = Data_product products'\<rparr>)))"

definition deleteProduct :: handler where
  "deleteProduct req d =
     (case findByPk (params_id req) d of
        Inl e \<Rightarrow> Inl e
      | Inr None \<Rightarrow> Inr (d, not_found)
      | Inr (Some products) \<Rightarrow>
          Inr (destroy products d, \<lparr>status = 200, content = Data_text ''Producto Eliminado''\<rparr>))"

subsection \<open>Validation chains and the error-collecting middleware\<close>

datatype location = Param | Body

text \<open>
  The checks a chain can stack; a custom check carries its own function, as
  \<open>.custom(value => value > 0)\<close> does.
\<close>

datatype check = IsInt | NotEmpty | IsNumeric | IsBoolean | Custom "jvalue option \<Rightarrow> bool"

text \<open>
  A chain names a field and stacks checks on it, each with the message set
  by \<open>withMessage\<close>.
\<close>

datatype chain = Chain location string "(check \<times> string) list"

definition field_value :: "request \<Rightarrow> location \<Rightarrow> string \<Rightarrow> jvalue option" where
  "field_value req loc f =
     (case loc of
        Param \<Rightarrow> (if f = ''id'' then Some (JStr (params_id req)) else None)
      | Body \<Rightarrow> map_of (body req) f)"

fun passes :: "check \<Rightarrow> jvalue option \<Rightarrow> bool" where
  "passes IsInt v = isInt (text_of v)"
| "passes NotEmpty v = notEmpty (text_of v)"
| "passes IsNumeric v = isNumeric (text_of v)"
| "passes IsBoolean v = isBoolean (text_of v)"
| "passes (Custom f) v = f v"

text \<open>Every check of a chain is evaluated; the failing ones leave their message.\<close>

fun chain_errors :: "request \<Rightarrow> chain \<Rightarrow> string list" where
  "chain_errors req (Chain loc f cs) =
     map snd (filter (\<lambda>(c, m). \<not> passes c (field_value req loc f)) cs)"

definition validationResult :: "chain list \<Rightarrow> request \<Rightarrow> string list" where
  "validationResult chs req = concat (map (chain_errors req) chs)"

text \<open>
  Modelled from the spec: the middleware \<open>handleInputErrors\<close> is not among
  the sources. If one or more rules failed it produces a response with status
  400 and a body enumerating every failing rule's message; otherwise it
  invokes the next stage with the request unchanged.
\<close>

definition handleInputErrors :: "string list \<Rightarrow> handler \<Rightarrow> handler" where
  "handleInputErrors errors next_stage req d =
     (if errors \<noteq> []
      then Inr (d, \<lparr>status = 400, content = Errors errors\<rparr>)
      else next_stage req d)"

subsection \<open>The router\<close>

definition id_chain :: chain where
  "id_chain = Chain Param ''id'' [(IsInt, ''ID no valido'')]"

definition name_chain :: chain where
  "name_chain = Chain Body ''name'' [(NotEmpty, ''El nombre del Producto no puede ir vacio'')]"

text \<open>The accented letter of the two messages below is written as its two bytes.\<close>

definition price_chain :: chain where
  "price_chain =
     Chain Body ''price''
       [(IsNumeric, ''Valor no v'' @ [CHR 0xC3, CHR 0xA1] @ ''lido''),
        (NotEmpty, ''El precio del Producto no puede ir vacio''),
        (Custom greater_than_zero, ''Precio no valido'')]"

definition availability_chain :: chain where
  "availability_chain =
     Chain Body ''availability''
       [(IsBoolean, ''Valor para disponibilidad no v'' @ [CHR 0xC3, CHR 0xA1] @ ''lido'')]"

text \<open>
  A route runs its chains in order, then the middleware, then the handler.
\<close>

definition route :: "chain list \<Rightarrow> handler \<Rightarrow> handler" where
  "route chs h req d = handleInputErrors (validationResult chs req) h req d"

datatype endpoint =
    GET_products
  | GET_product
  | POST_product
  | PUT_product
  | PATCH_product
  | DELETE_product

fun router :: "endpoint \<Rightarrow> handler" where
  "router GET_products = getProducts"
| "router GET_product = route [id_chain] getProductsById"
| "router POST_product = route [name_chain, price_chain] createProduct"
| "router PUT_product =
     route [id_chain, name_chain, price_chain, availability_chain] updateProduct"
| "router PATCH_product = route [id_chain] updateAvailability"
| "router DELETE_product = route [id_chain] deleteProduct"

text \<open>
  Serving a sequence of requests: each request sees the table its
  predecessors left; a request that ends in a database failure leaves the
  table as it was.
\<close>

fun serve :: "(endpoint \<times> request) list \<Rightarrow> db \<Rightarrow> db" where
  "serve [] d = d"
| "serve ((e, req) # rest) d =
     (case router e req d of
        Inl _ \<Rightarrow> serve rest d
      | Inr (d', _) \<Rightarrow> serve rest d')"

subsection \<open>Example data\<close>

text \<open>A small table and a few requests, used to run the operations.\<close>

definition monitor :: product where
  "monitor = \<lparr>id_pk = 1, name = ''Monitor'', price = 300, availability = True\<rparr>"

definition teclado :: product where
  "teclado = \<lparr>id_pk = 2, name = ''Teclado'', price = 99 / 2, availability = False\<rparr>"

definition shop :: db where
  "shop = \<lparr>rows = [monitor, teclado], next_id = 3\<rparr>"

text \<open>A well-formed update request for the id 7, which is not in the table.\<close>

definition put_7 :: request where
  "put_7 =
     \<lparr>params_id = ''7'',
      body = [(''name'', JStr ''Mouse''), (''price'', JNum 50), (''availability'', JBool False)]\<rparr>"

text \<open>Requests for the id 1, one of them with a body that a patch has no use for.\<close>

definition patch_1 :: request where
  "patch_1 = \<lparr>params_id = ''1'', body = [(''availability'', JBool True), (''id'', JNum 9)]\<rparr>"

definition get_1 :: request where
  "get_1 = \<lparr>params_id = ''+01'', body = []\<rparr>"

text \<open>The creation request of the specification's example, and an update of the product it creates.\<close>

definition post_monitor :: request where
  "post_monitor = \<lparr>params_id = '''', body = [(''name'', JStr ''Monitor''), (''price'', JNum 300)]\<rparr>"

text \<open>The same creation request with an availability of its own.\<close>

definition post_unavailable :: request where
  "post_unavailable =
     \<lparr>params_id = '''',
      body = [(''name'', JStr ''Monitor''), (''price'', JNum 300), (''availability'', JBool False)]\<rparr>"

definition put_1 :: request where
  "put_1 =
     \<lparr>params_id = ''1'',
      body = [(''id'', JNum 9), (''name'', JStr ''Monitor Curvo''), (''price'', JStr ''399.90''),
              (''availability'', JBool False)]\<rparr>"

text \<open>The monitor after the update, and a request whose id is no integer.\<close>

definition monitor_curvo :: product where
  "monitor_curvo = \<lparr>id_pk = 1, name = ''Monitor Curvo'', price = 3999 / 10, availability = False\<rparr>"

definition get_abc :: request where
  "get_abc = \<lparr>params_id = ''12abc'', body = [(''price'', JNum (- 5))]\<rparr>"

section \<open>Auxiliary facts\<close>

subsection \<open>Integer texts and the find-by-key primitive\<close>

lemma int_of_text_isInt: "isInt s \<Longrightarrow> \<exists>k. int_of_text s = Some k"
  by (simp add: int_of_text_def Let_def split: prod.split)

lemma find_absent:
  "\<forall>p \<in> set ps. id_pk p \<noteq> k \<Longrightarrow> find (\<lambda>p. id_pk p = k) ps = None"
  by (simp add: find_None_iff)

lemma findByPk_absent:
  assumes "isInt key" and "\<forall>p \<in> set (rows d). Some (id_pk p) \<noteq> int_of_text key"
  shows "findByPk key d = Inr None"
proof -
  from assms(1) obtain k where k: "int_of_text key = Some k"
    using int_of_text_isInt by blast
  with assms(2) have "\<forall>p \<in> set (rows d). id_pk p \<noteq> k" by simp
  then have "find (\<lambda>p. id_pk p = k) (rows d) = None" by (rule find_absent)
  with k show ?thesis by (simp add: findByPk_def)
qed

subsection \<open>Routes\<close>

lemma id_chain_passes: "validationResult [id_chain] req = [] \<longleftrightarrow> isInt (params_id req)"
  by (simp add: validationResult_def id_chain_def field_value_def text_of_def)

lemma validationResult_Cons:
  "validationResult (c # cs) req = chain_errors req c @ validationResult cs req"
  by (simp add: validationResult_def)

lemma route_pass: "validationResult cs req = [] \<Longrightarrow> route cs h req d = h req d"
  by (simp add: route_def handleInputErrors_def)

lemma int_of_text_Some_isInt: "int_of_text s = Some k \<Longrightarrow> isInt s"
  by (simp add: int_of_text_def split: if_splits)

lemma findByPk_Some:
  "int_of_text key = Some k \<Longrightarrow> findByPk key d = Inr (find (\<lambda>p. id_pk p = k) (rows d))"
  by (simp add: findByPk_def)

lemma find_by_id_Some: "find (\<lambda>q. id_pk q = k) ps = Some p \<Longrightarrow> id_pk p = k \<and> p \<in> set ps"
  by (induction ps) (auto split: if_splits)

lemma find_distinct:
  "distinct (map id_pk ps) \<Longrightarrow> p \<in> set ps \<Longrightarrow> find (\<lambda>q. id_pk q = id_pk p) ps = Some p"
proof (induction ps)
  case Nil
  then show ?case by simp
next
  case (Cons a ps)
  show ?case
  proof (cases "a = p")
    case True
    then show ?thesis by simp
  next
    case False
    with Cons.prems have "p \<in> set ps" by simp
    then have "id_pk p \<in> id_pk ` set ps" by (rule imageI)
    with Cons.prems have "id_pk a \<noteq> id_pk p" by auto
    with Cons \<open>p \<in> set ps\<close> show ?thesis by simp
  qed
qed


subsection \<open>Persisting and removing rows\<close>

lemma find_after_save:
  "find (\<lambda>q. id_pk q = k) ps = Some p \<Longrightarrow> id_pk p' = k \<Longrightarrow>
   find (\<lambda>q. id_pk q = k) (map (\<lambda>q. if id_pk q = id_pk p' then p' else q) ps) = Some p'"
  by (induction ps) (auto split: if_splits)

lemma save_ids: "map id_pk (rows (save p d)) = map id_pk (rows d)"
  by (simp add: save_def)

lemma save_next_id: "next_id (save p d) = next_id d"
  by (simp add: save_def)

lemma save_twice: "id_pk p' = id_pk p \<Longrightarrow> save p (save p' d) = save p d"
  by (simp add: save_def comp_def)


lemma find_stored:
  "db_ok d \<Longrightarrow> p \<in> set (rows d) \<Longrightarrow> find (\<lambda>q. id_pk q = id_pk p) (rows d) = Some p"
  by (simp add: db_ok_def find_distinct)

lemma save_stored:
  assumes "db_ok d" and "p \<in> set (rows d)"
  shows "save p d = d"
proof -
  have inj: "inj_on id_pk (set (rows d))"
    using assms(1) by (simp add: db_ok_def distinct_map)
  have "map (\<lambda>q. if id_pk q = id_pk p then p else q) (rows d) = rows d"
  proof (rule map_idI)
    fix q assume "q \<in> set (rows d)"
    with inj assms(2) show "(if id_pk q = id_pk p then p else q) = q"
      by (auto dest: inj_onD)
  qed
  then show ?thesis by (simp add: save_def)
qed

lemma db_ok_save: "db_ok d \<Longrightarrow> db_ok (save p d)"
  by (simp add: db_ok_def save_ids)

lemma updateAvailability_found:
  "findByPk (params_id req) d = Inr (Some p) \<Longrightarrow>
   updateAvailability req d =
     Inr (save (p\<lparr>availability := \<not> availability p\<rparr>) d,
          \<lparr>status = 200, content = Data_product (p\<lparr>availability := \<not> availability p\<rparr>)\<rparr>)"
  by (simp add: updateAvailability_def Let_def)

lemma findByPk_stored:
  "db_ok d \<Longrightarrow> p \<in> set (rows d) \<Longrightarrow> int_of_text key = Some (id_pk p) \<Longrightarrow>
   findByPk key d = Inr (Some p)"
  by (simp add: findByPk_Some find_stored)

lemma findByPk_save:
  assumes "findByPk key d = Inr (Some p)" and "id_pk p' = id_pk p"
  shows "findByPk key (save p' d) = Inr (Some p')"
proof (cases "int_of_text key")
  case None
  with assms(1) show ?thesis by (simp add: findByPk_def)
next
  case (Some k)
  with assms(1) have f: "find (\<lambda>q. id_pk q = k) (rows d) = Some p"
    by (simp add: findByPk_def)
  then have "id_pk p = k" by (blast dest: find_by_id_Some)
  with assms(2) have "id_pk p' = k" by simp
  with f have "find (\<lambda>q. id_pk q = k)
                 (map (\<lambda>q. if id_pk q = id_pk p' then p' else q) (rows d)) = Some p'"
    by (rule find_after_save)
  with Some show ?thesis by (simp add: findByPk_def save_def)
qed

lemma route_id_only:
  "isInt (params_id req) \<Longrightarrow> route [id_chain] h req d = h req d"
  by (simp add: route_pass id_chain_passes)


lemma find_by_id_member:
  "p \<in> set ps \<Longrightarrow> \<exists>q. find (\<lambda>q. id_pk q = id_pk p) ps = Some q \<and> id_pk q = id_pk p"
  by (induction ps) auto

lemma findByPk_member:
  assumes "p \<in> set (rows d)" and "int_of_text key = Some (id_pk p)"
  shows "\<exists>q. findByPk key d = Inr (Some q) \<and> id_pk q = id_pk p"
  using find_by_id_member [OF assms(1)] assms(2) by (simp add: findByPk_def)

lemma find_after_destroy:
  "find (\<lambda>q. id_pk q = k) (filter (\<lambda>q. id_pk q \<noteq> k) ps) = None"
  by (simp add: find_None_iff)

lemma findByPk_destroy:
  "int_of_text key = Some (id_pk p) \<Longrightarrow> findByPk key (destroy p d) = Inr None"
  by (simp add: findByPk_def destroy_def find_after_destroy)

subsection \<open>Listing\<close>

lemma findAll_mset: "mset (findAll d) = mset (rows d)"
  by (simp add: findAll_def)

lemma findAll_descending: "sorted_wrt (\<lambda>p q. id_pk q \<le> id_pk p) (findAll d)"
proof -
  have "sorted (map id_pk (sort_key id_pk (rows d)))"
    by (rule sorted_sort_key)
  then have "sorted_wrt (\<lambda>p q. id_pk p \<le> id_pk q) (sort_key id_pk (rows d))"
    by (simp add: sorted_map)
  then show ?thesis
    by (simp add: findAll_def sorted_wrt_rev)
qed


subsection \<open>Not-found responses\<close>

lemma handler_404_cases:
  assumes "status res = 404"
  shows "updateProduct req d = Inr (d', res) \<Longrightarrow> d' = d \<and> findByPk (params_id req) d = Inr None"
    and "updateAvailability req d = Inr (d', res) \<Longrightarrow> d' = d \<and> findByPk (params_id req) d = Inr None"
    and "deleteProduct req d = Inr (d', res) \<Longrightarrow> d' = d \<and> findByPk (params_id req) d = Inr None"
  using assms
  by (auto simp: updateProduct_def updateAvailability_def deleteProduct_def Let_def
           split: sum.splits option.splits prod.splits)

lemma route_404:
  assumes "route cs h req d = Inr (d', res)" and "status res = 404"
  shows "h req d = Inr (d', res)"
  using assms by (auto simp: route_def handleInputErrors_def split: if_splits)


subsection \<open>The patch request and its body\<close>

lemma updateAvailability_body: "updateAvailability (req\<lparr>body := b\<rparr>) d = updateAvailability req d"
  by (simp add: updateAvailability_def)

lemma validationResult_id_body:
  "validationResult [id_chain] (req\<lparr>body := b\<rparr>) = validationResult [id_chain] req"
  by (simp add: validationResult_def id_chain_def field_value_def)

lemma route_patch_body:
  "route [id_chain] updateAvailability (req\<lparr>body := b\<rparr>) d
     = route [id_chain] updateAvailability req d"
  by (simp add: route_def handleInputErrors_def validationResult_id_body updateAvailability_body)

subsection \<open>What validated fields denote\<close>

lemma name_chain_ok:
  "chain_errors req name_chain = [] \<longleftrightarrow> notEmpty (text_of (map_of (body req) ''name''))"
  by (simp add: name_chain_def field_value_def)

lemma price_chain_ok:
  "chain_errors req price_chain = [] \<longleftrightarrow>
     isNumeric (text_of (map_of (body req) ''price''))
   \<and> notEmpty (text_of (map_of (body req) ''price''))
   \<and> greater_than_zero (map_of (body req) ''price'')"
  by (simp add: price_chain_def field_value_def)

lemma post_chains_ok:
  "validationResult [name_chain, price_chain] req = [] \<longleftrightarrow>
     notEmpty (text_of (map_of (body req) ''name''))
   \<and> isNumeric (text_of (map_of (body req) ''price''))
   \<and> notEmpty (text_of (map_of (body req) ''price''))
   \<and> greater_than_zero (map_of (body req) ''price'')"
  by (simp add: validationResult_def name_chain_ok price_chain_ok)

lemma put_chains_ok:
  "validationResult [id_chain, name_chain, price_chain, availability_chain] req = [] \<Longrightarrow>
     isInt (params_id req)
   \<and> notEmpty (text_of (map_of (body req) ''name''))
   \<and> isNumeric (text_of (map_of (body req) ''price''))
   \<and> greater_than_zero (map_of (body req) ''price'')"
  using id_chain_passes [of req]
  by (simp add: validationResult_def name_chain_ok price_chain_ok)

lemma not_numeric_empty: "\<not> isNumeric ''''"
  by (simp add: isNumeric_def strip_sign_def)

lemma not_numeric_bool: "\<not> isNumeric ''true''" "\<not> isNumeric ''false''"
  by (simp_all add: isNumeric_def strip_sign_def is_digit_def)

lemma number_of_text_numeric: "isNumeric s \<Longrightarrow> \<exists>r. number_of_text s = Some r"
  by (simp add: number_of_text_def Let_def split: prod.split)

subsection \<open>The conversion agrees with the numeric rule\<close>

lemma isNumeric_rest: "isNumeric s \<longleftrightarrow> numeric_rest (snd (strip_sign s))"
  by (simp add: isNumeric_def numeric_rest_def Let_def)

lemma is_digit_char: "is_digit c \<Longrightarrow> c \<in> set ''.0123456789''"
  by (auto simp: is_digit_def)

lemma numeric_rest_cases:
  assumes "numeric_rest r"
  obtains (whole) "dropWhile is_digit r = []" "takeWhile is_digit r = r" "r \<noteq> []"
    | (fraction) fp where "dropWhile is_digit r = CHR ''.'' # fp" "fp \<noteq> []"
        "list_all is_digit fp" "r = takeWhile is_digit r @ CHR ''.'' # fp"
proof (cases "dropWhile is_digit r")
  case Nil
  have "takeWhile is_digit r @ dropWhile is_digit r = r" by (rule takeWhile_dropWhile_id)
  with Nil have t: "takeWhile is_digit r = r" by simp
  with Nil assms have "r \<noteq> []" by (auto simp: numeric_rest_def)
  with Nil t show ?thesis by (rule whole)
next
  case (Cons c fp)
  with assms have c: "c = CHR ''.''" and fp: "fp \<noteq> []" "list_all is_digit fp"
    by (simp_all add: numeric_rest_def)
  have "takeWhile is_digit r @ dropWhile is_digit r = r" by (rule takeWhile_dropWhile_id)
  with Cons c have "r = takeWhile is_digit r @ CHR ''.'' # fp" by simp
  with Cons c fp show ?thesis by (auto intro: fraction)
qed

lemma numeric_rest_ends:
  assumes "numeric_rest r"
  shows "r \<noteq> [] \<and> hd r \<in> set ''.0123456789'' \<and> is_digit (last r)"
  using assms
proof (cases rule: numeric_rest_cases)
  case whole
  then have all: "\<forall>c \<in> set r. is_digit c"
    by (metis set_takeWhileD)
  with whole(3) have h: "is_digit (hd r)" and l: "is_digit (last r)" by simp_all
  from h have "hd r \<in> set ''.0123456789''" by (rule is_digit_char)
  with whole(3) l show ?thesis by blast
next
  case (fraction fp)
  let ?ip = "takeWhile is_digit r"
  have r: "r = ?ip @ CHR ''.'' # fp" by (rule fraction(4))
  have "last r = last fp"
    using fraction(2) by (subst r) simp
  moreover have "is_digit (last fp)"
    using fraction(2,3) by (simp add: list_all_iff)
  moreover have "hd r \<in> set ''.0123456789''"
  proof (cases "?ip")
    case Nil
    with r have "hd r = CHR ''.''" by (metis append_Nil list.sel(1))
    then show ?thesis by simp
  next
    case (Cons a as)
    then have "a \<in> set ?ip" by simp
    then have "is_digit a" by (rule set_takeWhileD [THEN conjunct2])
    moreover from Cons r have "hd r = a" by (metis append_Cons list.sel(1))
    ultimately show ?thesis using is_digit_char by metis
  qed
  moreover have "r \<noteq> []" by (subst r) simp
  ultimately show ?thesis by metis
qed

lemma isNumeric_ends:
  assumes "isNumeric s"
  shows "s \<noteq> [] \<and> hd s \<in> set ''+-.0123456789'' \<and> is_digit (last s)"
proof -
  from assms have n: "numeric_rest (snd (strip_sign s))" by (simp add: isNumeric_rest)
  show ?thesis
  proof (cases s)
    case Nil
    with n numeric_rest_ends [OF n] show ?thesis by (simp add: strip_sign_def)
  next
    case (Cons c cs)
    show ?thesis
    proof (cases "c = CHR ''-'' \<or> c = CHR ''+''")
      case True
      with Cons have "snd (strip_sign s) = cs" by (auto simp: strip_sign_def)
      with numeric_rest_ends [OF n] have "cs \<noteq> []" "is_digit (last cs)" by simp_all
      with Cons True show ?thesis by auto
    next
      case False
      with Cons have "snd (strip_sign s) = s" by (simp add: strip_sign_def)
      with numeric_rest_ends [OF n] show ?thesis by simp
    qed
  qed
qed

lemma strip_any_none:
  "find (\<lambda>w. take (length w) s = w) ws = None \<Longrightarrow> strip_any ws n s = s"
  by (cases n) simp_all

lemma js_whitespace_ends:
  "\<forall>w \<in> set js_whitespace.
     w \<noteq> [] \<and> hd w \<notin> set ''+-.0123456789'' \<and> \<not> is_digit (last w)"
proof -
  have "list_all (\<lambda>w. w \<noteq> [] \<and> hd w \<notin> set ''+-.0123456789'' \<and> \<not> is_digit (last w))
          js_whitespace"
    by code_simp
  then show ?thesis by (simp add: list_all_iff)
qed

lemma take_hd: "w \<noteq> [] \<Longrightarrow> take (length w) s = w \<Longrightarrow> hd s = hd w"
  by (cases w; cases s) auto

lemma strip_left_numeric:
  assumes "s \<noteq> []" and "hd s \<in> set ''+-.0123456789''"
  shows "strip_any js_whitespace n s = s"
proof (rule strip_any_none)
  have "take (length w) s \<noteq> w" if w: "w \<in> set js_whitespace" for w
  proof
    assume t: "take (length w) s = w"
    from w js_whitespace_ends have ne: "w \<noteq> []" and nw: "hd w \<notin> set ''+-.0123456789''"
      by blast+
    from ne t have "hd s = hd w" by (rule take_hd)
    with assms(2) nw show False by metis
  qed
  then show "find (\<lambda>w. take (length w) s = w) js_whitespace = None"
    by (simp add: find_None_iff)
qed

lemma strip_right_numeric:
  assumes "s \<noteq> []" and "is_digit (last s)"
  shows "strip_any (map rev js_whitespace) n (rev s) = rev s"
proof (rule strip_any_none)
  have "take (length (rev w)) (rev s) \<noteq> rev w" if w: "w \<in> set js_whitespace" for w
  proof
    assume t: "take (length (rev w)) (rev s) = rev w"
    from w js_whitespace_ends have ne: "w \<noteq> []" and nw: "\<not> is_digit (last w)"
      by blast+
    from ne have "rev w \<noteq> []" by simp
    then have "hd (rev s) = hd (rev w)" using t by (rule take_hd)
    with assms(1) ne have "last s = last w" by (simp add: hd_rev)
    with assms(2) nw show False by simp
  qed
  then show "find (\<lambda>v. take (length v) (rev s) = v) (map rev js_whitespace) = None"
    by (simp add: find_None_iff)
qed

lemma js_trim_numeric: "isNumeric s \<Longrightarrow> js_trim s = s"
  using isNumeric_ends [of s] strip_left_numeric [of s "length s"]
    strip_right_numeric [of s "length s"]
  by (simp add: js_trim_def Let_def)

lemma radix_literal_numeric:
  assumes "isNumeric s"
  shows "radix_literal s = None"
proof (cases s)
  case Nil
  then show ?thesis by (simp add: radix_literal_def)
next
  case c0: (Cons c0 t)
  show ?thesis
  proof (cases t)
    case Nil
    with c0 show ?thesis by (simp add: radix_literal_def)
  next
    case (Cons c1 ds)
    show ?thesis
    proof (cases "c0 = CHR ''0'' \<and> c1 \<in> set ''xXoObB''")
      case False
      with c0 Cons show ?thesis by (auto simp: radix_literal_def Let_def)
    next
      case True
      with c0 Cons have "snd (strip_sign s) = s" by (simp add: strip_sign_def)
      moreover from True c0 Cons have "dropWhile is_digit s = c1 # ds"
        by (auto simp: is_digit_def)
      ultimately have "c1 = CHR ''.''"
        using assms by (simp add: isNumeric_def Let_def)
      with True show ?thesis by simp
    qed
  qed
qed

lemma js_exponent_Nil: "js_exponent [] = Some 0"
  by (simp add: js_exponent_def)

lemma nat_of_digits_Nil: "nat_of_digits [] = 0"
  by (simp add: nat_of_digits_def)

lemma not_numeric_Infinity: "\<not> numeric_rest ''Infinity''"
  by (simp add: numeric_rest_def is_digit_def)

lemma js_decimal_whole:
  assumes "strip_sign t = (neg, r)" and "r \<noteq> ''Infinity''" and "r \<noteq> []"
    and "takeWhile is_digit r = ip" and "dropWhile is_digit r = []" and "ip \<noteq> []"
  shows "js_decimal t
           = Finite (if neg then - of_nat (nat_of_digits ip) else of_nat (nat_of_digits ip))"
  using assms
  by (simp add: js_decimal_def js_exponent_Nil nat_of_digits_Nil
           del: takeWhile_eq_all_conv dropWhile_eq_Nil_conv)

lemma js_decimal_fraction:
  assumes "strip_sign t = (neg, r)" and "r \<noteq> ''Infinity''"
    and "takeWhile is_digit r = ip" and "dropWhile is_digit r = CHR ''.'' # fp"
    and "takeWhile is_digit fp = fp" and "dropWhile is_digit fp = []" and "fp \<noteq> []"
  shows "js_decimal t
           = Finite (if neg
                     then - (of_nat (nat_of_digits ip) + of_nat (nat_of_digits fp) / 10 ^ length fp)
                     else of_nat (nat_of_digits ip) + of_nat (nat_of_digits fp) / 10 ^ length fp)"
  using assms(1,2,3,4,7) assms(5,6)
  by (simp add: js_decimal_def js_exponent_Nil del: takeWhile_eq_all_conv dropWhile_eq_Nil_conv)

lemma number_of_text_whole:
  assumes "isNumeric s" and "strip_sign s = (neg, r)"
    and "takeWhile is_digit r = ip" and "dropWhile is_digit r = []"
  shows "number_of_text s
           = Some (if neg then - of_nat (nat_of_digits ip) else of_nat (nat_of_digits ip))"
  using assms
  by (simp add: number_of_text_def nat_of_digits_Nil
           del: takeWhile_eq_all_conv dropWhile_eq_Nil_conv)

lemma number_of_text_fraction:
  assumes "isNumeric s" and "strip_sign s = (neg, r)"
    and "takeWhile is_digit r = ip" and "dropWhile is_digit r = CHR ''.'' # fp"
  shows "number_of_text s
           = Some (if neg
                   then - (of_nat (nat_of_digits ip) + of_nat (nat_of_digits fp) / 10 ^ length fp)
                   else of_nat (nat_of_digits ip) + of_nat (nat_of_digits fp) / 10 ^ length fp)"
  using assms
  by (simp add: number_of_text_def del: takeWhile_eq_all_conv dropWhile_eq_Nil_conv)

lemma js_decimal_numeric:
  assumes "isNumeric s" and "number_of_text s = Some q"
  shows "js_decimal s = Finite q"
proof -
  obtain neg r where sr: "strip_sign s = (neg, r)" by (cases "strip_sign s")
  with assms(1) have n: "numeric_rest r" by (simp add: isNumeric_rest)
  then have inf: "r \<noteq> ''Infinity''" using not_numeric_Infinity by blast
  from n show ?thesis
  proof (cases rule: numeric_rest_cases)
    case whole
    from sr inf whole(3) whole(2) whole(1) whole(3)
    have "js_decimal s
            = Finite (if neg then - of_nat (nat_of_digits r) else of_nat (nat_of_digits r))"
      by (rule js_decimal_whole)
    moreover from assms(1) sr whole(2) whole(1)
    have "number_of_text s
            = Some (if neg then - of_nat (nat_of_digits r) else of_nat (nat_of_digits r))"
      by (rule number_of_text_whole)
    ultimately show ?thesis using assms(2) by simp
  next
    case (fraction fp)
    let ?ip = "takeWhile is_digit r"
    from fraction(3) have fp: "takeWhile is_digit fp = fp" "dropWhile is_digit fp = []"
      by (simp_all add: list_all_iff)
    from sr inf refl fraction(1) fp fraction(2)
    have "js_decimal s
            = Finite (if neg
                      then - (of_nat (nat_of_digits ?ip) + of_nat (nat_of_digits fp) / 10 ^ length fp)
                      else of_nat (nat_of_digits ?ip) + of_nat (nat_of_digits fp) / 10 ^ length fp)"
      by (rule js_decimal_fraction)
    moreover from assms(1) sr refl fraction(1)
    have "number_of_text s
            = Some (if neg
                    then - (of_nat (nat_of_digits ?ip) + of_nat (nat_of_digits fp) / 10 ^ length fp)
                    else of_nat (nat_of_digits ?ip) + of_nat (nat_of_digits fp) / 10 ^ length fp)"
      by (rule number_of_text_fraction)
    ultimately show ?thesis using assms(2) by simp
  qed
qed

lemma js_number_of_text_numeric:
  assumes "isNumeric s" and "number_of_text s = Some q"
  shows "js_number_of_text s = Finite q"
proof -
  from assms(1) have "s \<noteq> []" using isNumeric_ends by blast
  with assms show ?thesis
    by (simp add: js_number_of_text_def js_trim_numeric radix_literal_numeric
                  js_decimal_numeric)
qed

subsection \<open>What the validated name and price are stored as\<close>

lemma validated_name:
  assumes "notEmpty (text_of v)"
  shows "\<exists>x. v = Some x \<and> name_column x = Some (text_of v) \<and> text_of v \<noteq> []"
proof (cases v)
  case None
  with assms show ?thesis by (simp add: text_of_def notEmpty_def)
next
  case (Some x)
  with assms show ?thesis
    by (cases x) (simp_all add: name_column_def notEmpty_def text_of_def)
qed

lemma validated_price:
  assumes "isNumeric (text_of v)" and "greater_than_zero v"
  shows "\<exists>x r. v = Some x \<and> price_column x = Some r \<and> js_number v = Finite r \<and> 0 < r"
proof (cases v)
  case None
  with assms(1) show ?thesis by (simp add: text_of_def not_numeric_empty)
next
  case (Some x)
  show ?thesis
  proof (cases x)
    case JNull
    with Some assms(1) show ?thesis by (simp add: text_of_def not_numeric_empty)
  next
    case (JBool b)
    with Some assms(1) show ?thesis
      by (cases b) (simp_all add: text_of_def not_numeric_bool)
  next
    case (JNum r)
    with Some assms(2) show ?thesis
      by (simp add: price_column_def js_number_def greater_than_zero_def)
  next
    case (JStr s)
    with Some assms(1) have "isNumeric s" by (simp add: text_of_def)
    then obtain r where r: "number_of_text s = Some r"
      using number_of_text_numeric by blast
    with \<open>isNumeric s\<close> have "js_number_of_text s = Finite r"
      by (rule js_number_of_text_numeric)
    with r Some JStr assms(2) show ?thesis
      by (simp add: price_column_def js_number_def greater_than_zero_def)
  qed
qed

lemma create_Inr:
  assumes "create vs d = Inr (p, d')"
  shows "rows d' = rows d @ [p]"
    and "id_pk p \<notin> id_pk ` set (rows d)"
    and "Option.bind (map_of vs ''name'') name_column = Some (name p)"
    and "Option.bind (map_of vs ''price'') price_column = Some (price p)"
    and "assign availability_column (map_of vs ''availability'') True = Some (availability p)"
    and "primary_key vs d = Some (id_pk p, next_id d')"
  using assms
  by (auto simp: create_def Let_def split: option.splits if_splits)

lemma create_validated:
  assumes "notEmpty (text_of (map_of vs ''name''))"
    and "isNumeric (text_of (map_of vs ''price''))"
    and "greater_than_zero (map_of vs ''price'')"
    and "create vs d = Inr (p, d')"
  shows "name p = text_of (map_of vs ''name'') \<and> name p \<noteq> []
       \<and> js_number (map_of vs ''price'') = Finite (price p) \<and> 0 < price p"
proof -
  from validated_name [OF assms(1)] obtain x
    where x: "map_of vs ''name'' = Some x" "name_column x = Some (text_of (map_of vs ''name''))"
      "text_of (map_of vs ''name'') \<noteq> []"
    by blast
  from validated_price [OF assms(2,3)] obtain y r
    where y: "map_of vs ''price'' = Some y" "price_column y = Some r"
      "js_number (map_of vs ''price'') = Finite r" "0 < r"
    by blast
  from create_Inr(3) [OF assms(4)] x(1,2) have "name p = text_of (map_of vs ''name'')"
    by simp
  moreover from create_Inr(4) [OF assms(4)] y(1,2) have "price p = r"
    by simp
  ultimately show ?thesis using x(3) y(3,4) by simp
qed

lemma create_answers:
  assumes "notEmpty (text_of (map_of vs ''name''))"
    and "isNumeric (text_of (map_of vs ''price''))"
    and "greater_than_zero (map_of vs ''price'')"
    and "assign availability_column (map_of vs ''availability'') True = Some a"
    and "map_of vs ''id'' = None"
    and "next_id d \<notin> id_pk ` set (rows d)"
  shows "\<exists>p d'. create vs d = Inr (p, d') \<and> id_pk p = next_id d \<and> availability p = a"
proof -
  from validated_name [OF assms(1)] obtain x n
    where x: "map_of vs ''name'' = Some x" "name_column x = Some n"
    by blast
  from validated_price [OF assms(2,3)] obtain y r
    where y: "map_of vs ''price'' = Some y" "price_column y = Some r"
    by blast
  have "primary_key vs d = Some (next_id d, next_id d + 1)"
    using assms(5) by (simp add: primary_key_def)
  then have "create vs d =
      Inr (\<lparr>id_pk = next_id d, name = n, price = r, availability = a\<rparr>,
           \<lparr>rows = rows d @ [\<lparr>id_pk = next_id d, name = n, price = r, availability = a\<rparr>],
              next_id = next_id d + 1\<rparr>)"
    unfolding create_def using x y assms(4,6) by (simp add: Let_def)
  then show ?thesis by simp
qed

lemma find_snoc:
  "find P (xs @ [x]) = (case find P xs of None \<Rightarrow> (if P x then Some x else None) | Some y \<Rightarrow> Some y)"
  by (induction xs) simp_all

lemma find_new:
  assumes "id_pk p \<notin> id_pk ` set ps"
  shows "find (\<lambda>q. id_pk q = id_pk p) (ps @ [p]) = Some p"
proof -
  have "\<forall>q \<in> set ps. id_pk q \<noteq> id_pk p"
    using assms by (metis imageI)
  then have "find (\<lambda>q. id_pk q = id_pk p) ps = None"
    by (rule find_absent)
  then show ?thesis by (simp add: find_snoc)
qed

subsection \<open>Integers and their text\<close>

lemma digit_char_is_digit: "d < 10 \<Longrightarrow> is_digit (digit_char d)"
proof -
  have "list_all (\<lambda>d. is_digit (digit_char d)) [0..<10]" by code_simp
  then show "d < 10 \<Longrightarrow> is_digit (digit_char d)"
    by (simp add: list_all_iff)
qed

lemma digit_val_digit_char: "d < 10 \<Longrightarrow> digit_val (digit_char d) = d"
  by (simp add: digit_val_def digit_char_def)

lemma is_digit_not_sign: "is_digit c \<Longrightarrow> c \<noteq> CHR ''-'' \<and> c \<noteq> CHR ''+''"
  by (auto simp: is_digit_def)

lemma show_nat_digits: "show_nat n \<noteq> [] \<and> list_all is_digit (show_nat n)"
proof (induction n rule: show_nat.induct)
  case (1 n)
  show ?case
  proof (cases "n < 10")
    case True
    then show ?thesis by (simp add: show_nat.simps [of n] digit_char_is_digit)
  next
    case False
    with 1 show ?thesis by (simp add: show_nat.simps [of n] digit_char_is_digit)
  qed
qed

lemma nat_of_digits_snoc: "nat_of_digits (ds @ [c]) = 10 * nat_of_digits ds + digit_val c"
  by (simp add: nat_of_digits_def)

lemma nat_of_digits_show_nat: "nat_of_digits (show_nat n) = n"
proof (induction n rule: show_nat.induct)
  case (1 n)
  show ?case
  proof (cases "n < 10")
    case True
    then show ?thesis
      by (simp add: show_nat.simps [of n] nat_of_digits_def digit_val_digit_char)
  next
    case False
    with 1 show ?thesis
      by (simp add: show_nat.simps [of n] nat_of_digits_snoc digit_val_digit_char)
  qed
qed

lemma strip_sign_digits:
  "ds \<noteq> [] \<Longrightarrow> list_all is_digit ds \<Longrightarrow> strip_sign ds = (False, ds)"
  by (cases ds) (auto simp: strip_sign_def dest: is_digit_not_sign)

lemma int_of_text_show_nat: "int_of_text (show_nat n) = Some (int n)"
  using show_nat_digits [of n]
  by (simp add: int_of_text_def isInt_def strip_sign_digits nat_of_digits_show_nat)

lemma int_of_text_minus:
  "ds \<noteq> [] \<Longrightarrow> list_all is_digit ds \<Longrightarrow>
   int_of_text (CHR ''-'' # ds) = Some (- int (nat_of_digits ds))"
  by (simp add: int_of_text_def isInt_def strip_sign_def)

lemma int_of_text_show_int: "int_of_text (show_int i) = Some i"
proof (cases "i < 0")
  case True
  then show ?thesis
    using show_nat_digits [of "nat (- i)"]
    by (simp add: show_int_def int_of_text_minus nat_of_digits_show_nat)
next
  case False
  then show ?thesis by (simp add: show_int_def int_of_text_show_nat)
qed


subsection \<open>Creating and reading back\<close>

lemma db_ok_create:
  assumes "db_ok d" and "rows d' = rows d @ [p]" and "id_pk p \<notin> id_pk ` set (rows d)"
  shows "db_ok d'"
  using assms by (simp add: db_ok_def)

lemma getProductsById_found:
  "findByPk (params_id req) d = Inr (Some p) \<Longrightarrow>
   getProductsById req d = Inr (d, \<lparr>status = 200, content = Data_product p\<rparr>)"
  by (simp add: getProductsById_def)


subsection \<open>The invariant of stored products\<close>

lemma route_cases:
  assumes "route cs h req d = Inr (d', res)"
  shows "(validationResult cs req \<noteq> [] \<and> d' = d
            \<and> res = \<lparr>status = 400, content = Errors (validationResult cs req)\<rparr>)
       \<or> (validationResult cs req = [] \<and> h req d = Inr (d', res))"
  using assms by (auto simp: route_def handleInputErrors_def split: if_splits)

lemma save_valid:
  "list_all valid_product (rows d) \<Longrightarrow> valid_product p \<Longrightarrow>
   list_all valid_product (rows (save p d))"
  by (auto simp: save_def list_all_iff)

lemma destroy_valid:
  "list_all valid_product (rows d) \<Longrightarrow> list_all valid_product (rows (destroy p d))"
  by (simp add: destroy_def list_all_iff)

lemma findByPk_member_of:
  "findByPk key d = Inr (Some p) \<Longrightarrow> p \<in> set (rows d)"
  by (auto simp: findByPk_def split: option.splits dest: find_by_id_Some)

lemma update_validated:
  assumes "notEmpty (text_of (map_of vs ''name''))"
    and "isNumeric (text_of (map_of vs ''price''))"
    and "greater_than_zero (map_of vs ''price'')"
    and "update vs p d = Inr (p', d')"
  shows "valid_product p' \<and> id_pk p' = id_pk p \<and> d' = save p' d"
proof -
  from validated_name [OF assms(1)] obtain x
    where x: "map_of vs ''name'' = Some x" "name_column x = Some (text_of (map_of vs ''name''))"
      "text_of (map_of vs ''name'') \<noteq> []"
    by blast
  from validated_price [OF assms(2,3)] obtain y r
    where y: "map_of vs ''price'' = Some y" "price_column y = Some r" "0 < r"
    by blast
  have n: "assign name_column (map_of vs ''name'') (name p) = Some (text_of (map_of vs ''name''))"
    using x(1,2) by (simp add: assign_def)
  have pr: "assign price_column (map_of vs ''price'') (price p) = Some r"
    using y(1,2) by (simp add: assign_def)
  show ?thesis
  proof (cases "assign availability_column (map_of vs ''availability'') (availability p)")
    case None
    with assms(4) n pr show ?thesis by (simp add: update_def)
  next
    case (Some a)
    with assms(4) n pr
    have "p' = p\<lparr>name := text_of (map_of vs ''name''), price := r, availability := a\<rparr>"
      and "d' = save p' d"
      by (auto simp: update_def Let_def)
    with x(3) y(3) show ?thesis by (simp add: valid_product_def)
  qed
qed

lemma createProduct_valid:
  assumes "validationResult [name_chain, price_chain] req = []"
    and "createProduct req d = Inr (d', res)"
    and "list_all valid_product (rows d)"
  shows "list_all valid_product (rows d')"
proof -
  from assms(1) have v: "notEmpty (text_of (map_of (body req) ''name''))"
    "isNumeric (text_of (map_of (body req) ''price''))"
    "greater_than_zero (map_of (body req) ''price'')"
    by (simp_all add: post_chains_ok)
  from assms(2) obtain p where c: "create (body req) d = Inr (p, d')"
    by (auto simp: createProduct_def split: sum.splits)
  from create_validated [OF v c] have "valid_product p"
    unfolding valid_product_def by blast
  moreover from c have "rows d' = rows d @ [p]" by (rule create_Inr(1))
  ultimately show ?thesis using assms(3) by simp
qed

lemma updateProduct_valid:
  assumes "validationResult [id_chain, name_chain, price_chain, availability_chain] req = []"
    and "updateProduct req d = Inr (d', res)"
    and "list_all valid_product (rows d)"
  shows "list_all valid_product (rows d')"
proof -
  from put_chains_ok [OF assms(1)]
  have v: "notEmpty (text_of (map_of (body req) ''name''))"
    "isNumeric (text_of (map_of (body req) ''price''))"
    "greater_than_zero (map_of (body req) ''price'')"
    by simp_all
  show ?thesis
  proof (cases "findByPk (params_id req) d")
    case (Inl e)
    with assms(2) show ?thesis by (simp add: updateProduct_def)
  next
    case (Inr found)
    show ?thesis
    proof (cases found)
      case None
      with Inr assms(2,3) show ?thesis by (auto simp: updateProduct_def)
    next
      case (Some p)
      show ?thesis
      proof (cases "update (body req) p d")
        case (Inl e)
        with \<open>findByPk (params_id req) d = Inr found\<close> Some assms(2) show ?thesis
          by (simp add: updateProduct_def)
      next
        case upd: (Inr pd)
        obtain p' d1 where pd: "pd = (p', d1)" by (cases pd)
        from update_validated [OF v upd [unfolded pd]]
        have p': "valid_product p'" and d1: "d1 = save p' d" by simp_all
        from \<open>findByPk (params_id req) d = Inr found\<close> Some upd pd assms(2)
        have "d' = save p' d1" by (auto simp: updateProduct_def)
        with d1 p' assms(3) show ?thesis by (simp add: save_valid)
      qed
    qed
  qed
qed

lemma updateAvailability_valid:
  assumes "updateAvailability req d = Inr (d', res)" and "list_all valid_product (rows d)"
  shows "list_all valid_product (rows d')"
proof (cases "findByPk (params_id req) d")
  case (Inl e)
  with assms(1) show ?thesis by (simp add: updateAvailability_def)
next
  case (Inr found)
  show ?thesis
  proof (cases found)
    case None
    with Inr assms show ?thesis by (auto simp: updateAvailability_def)
  next
    case (Some p)
    with Inr have "p \<in> set (rows d)" by (simp add: findByPk_member_of)
    with assms(2) have "valid_product (p\<lparr>availability := \<not> availability p\<rparr>)"
      by (simp add: list_all_iff valid_product_def)
    moreover from Inr Some assms(1)
    have "d' = save (p\<lparr>availability := \<not> availability p\<rparr>) d"
      by (auto simp: updateAvailability_def Let_def)
    ultimately show ?thesis using assms(2) by (simp add: save_valid)
  qed
qed

lemma deleteProduct_valid:
  assumes "deleteProduct req d = Inr (d', res)" and "list_all valid_product (rows d)"
  shows "list_all valid_product (rows d')"
  using assms
  by (auto simp: deleteProduct_def destroy_valid split: sum.splits option.splits)

lemma getProductsById_same: "getProductsById req d = Inr (d', res) \<Longrightarrow> d' = d"
  by (auto simp: getProductsById_def split: sum.splits option.splits)

lemma router_valid:
  assumes "router e req d = Inr (d', res)" and "list_all valid_product (rows d)"
  shows "list_all valid_product (rows d')"
proof (cases e)
  case GET_products
  with assms show ?thesis by (auto simp: getProducts_def)
next
  case GET_product
  with assms(1) have "route [id_chain] getProductsById req d = Inr (d', res)" by simp
  from route_cases [OF this] assms(2) show ?thesis
    by (auto dest: getProductsById_same)
next
  case POST_product
  with assms(1) have "route [name_chain, price_chain] createProduct req d = Inr (d', res)"
    by simp
  from route_cases [OF this] assms(2) show ?thesis
    by (auto dest: createProduct_valid)
next
  case PUT_product
  with assms(1)
  have "route [id_chain, name_chain, price_chain, availability_chain] updateProduct req d
          = Inr (d', res)"
    by simp
  from route_cases [OF this] assms(2) show ?thesis
    by (auto dest: updateProduct_valid)
next
  case PATCH_product
  with assms(1) have "route [id_chain] updateAvailability req d = Inr (d', res)" by simp
  from route_cases [OF this] assms(2) show ?thesis
    by (auto dest: updateAvailability_valid)
next
  case DELETE_product
  with assms(1) have "route [id_chain] deleteProduct req d = Inr (d', res)" by simp
  from route_cases [OF this] assms(2) show ?thesis
    by (auto dest: deleteProduct_valid)
qed

lemma serve_valid:
  "list_all valid_product (rows d) \<Longrightarrow> list_all valid_product (rows (serve rs d))"
proof (induction rs arbitrary: d)
  case Nil
  then show ?case by simp
next
  case (Cons a rs)
  obtain e req where a: "a = (e, req)" by (cases a)
  show ?case
  proof (cases "router e req d")
    case (Inl x)
    with a Cons show ?thesis by simp
  next
    case (Inr y)
    obtain d' res where y: "y = (d', res)" by (cases y)
    with Inr Cons.prems have "list_all valid_product (rows d')"
      by (auto dest: router_valid)
    then have "list_all valid_product (rows (serve rs d'))" by (rule Cons.IH)
    with a Inr y show ?thesis by simp
  qed
qed

subsection \<open>Primary keys under the operations\<close>

lemma update_result:
  assumes "update vs p d = Inr (p', d')"
  shows "id_pk p' = id_pk p \<and> d' = save p' d"
  using assms
  by (auto simp: update_def Let_def split: option.splits)

lemma save_member:
  assumes "p \<in> set (rows d)" and "id_pk p' = id_pk p"
  shows "p' \<in> set (rows (save p' d))"
proof -
  from assms(1) have "(\<lambda>q. if id_pk q = id_pk p' then p' else q) p
      \<in> (\<lambda>q. if id_pk q = id_pk p' then p' else q) ` set (rows d)"
    by (rule imageI)
  with assms(2) show ?thesis by (simp add: save_def)
qed

lemma updateProduct_ids:
  assumes "updateProduct req d = Inr (d', res)"
  shows "map id_pk (rows d') = map id_pk (rows d) \<and> next_id d' = next_id d
       \<and> (status res = 200 \<longrightarrow>
            (\<exists>p. content res = Data_product p
               \<and> int_of_text (params_id req) = Some (id_pk p) \<and> p \<in> set (rows d')))"
proof (cases "findByPk (params_id req) d")
  case (Inl e)
  with assms show ?thesis by (simp add: updateProduct_def)
next
  case (Inr found)
  show ?thesis
  proof (cases found)
    case None
    with Inr assms show ?thesis by (auto simp: updateProduct_def not_found_def)
  next
    case (Some p)
    show ?thesis
    proof (cases "update (body req) p d")
      case (Inl e)
      with \<open>findByPk (params_id req) d = Inr found\<close> Some assms show ?thesis
        by (simp add: updateProduct_def)
    next
      case upd: (Inr pd)
      obtain p' d1 where pd: "pd = (p', d1)" by (cases pd)
      from update_result [OF upd [unfolded pd]]
      have id: "id_pk p' = id_pk p" and d1: "d1 = save p' d" by simp_all
      from \<open>findByPk (params_id req) d = Inr found\<close> Some upd pd assms
      have d': "d' = save p' d1" and res: "res = \<lparr>status = 200, content = Data_product p'\<rparr>"
        by (auto simp: updateProduct_def)
      from Inr Some have mem: "p \<in> set (rows d)" by (simp add: findByPk_member_of)
      from Inr Some obtain k where k: "int_of_text (params_id req) = Some k"
        and f: "find (\<lambda>q. id_pk q = k) (rows d) = Some p"
        by (cases "int_of_text (params_id req)") (simp_all add: findByPk_def)
      from f have "id_pk p = k" by (blast dest: find_by_id_Some)
      with k id have key: "int_of_text (params_id req) = Some (id_pk p')" by simp
      from mem id have "p' \<in> set (rows (save p' d))" by (rule save_member)
      then have "p' \<in> set (rows d')" by (simp add: d' d1 save_twice)
      with d' d1 res key show ?thesis by (simp add: save_ids save_next_id)
    qed
  qed
qed

lemma updateAvailability_ids:
  assumes "updateAvailability req d = Inr (d', res)"
  shows "map id_pk (rows d') = map id_pk (rows d) \<and> next_id d' = next_id d"
  using assms
  by (auto simp: updateAvailability_def Let_def save_ids save_next_id
           split: sum.splits option.splits)

lemma createProduct_rows:
  assumes "createProduct req d = Inr (d', res)"
  shows "\<exists>p. res = \<lparr>status = 201, content = Data_product p\<rparr>
           \<and> create (body req) d = Inr (p, d')
           \<and> rows d' = rows d @ [p] \<and> id_pk p \<notin> id_pk ` set (rows d)
           \<and> (map_of (body req) ''id'' = None \<longrightarrow> id_pk p = next_id d)"
proof -
  from assms obtain p where c: "create (body req) d = Inr (p, d')"
    and res: "res = \<lparr>status = 201, content = Data_product p\<rparr>"
    by (auto simp: createProduct_def split: sum.splits)
  have "id_pk p = next_id d" if "map_of (body req) ''id'' = None"
    using create_Inr(6) [OF c] that by (simp add: primary_key_def)
  with c res create_Inr(1,2) [OF c] show ?thesis by simp
qed

lemma deleteProduct_rows:
  assumes "deleteProduct req d = Inr (d', res)"
  shows "d' = d \<or> (\<exists>k. rows d' = filter (\<lambda>q. id_pk q \<noteq> k) (rows d))"
  using assms
  by (auto simp: deleteProduct_def destroy_def split: sum.splits option.splits)

lemma router_ids_in_place:
  assumes "router e req d = Inr (d', res)" and "e \<noteq> DELETE_product"
  shows "\<exists>new. map id_pk (rows d') = map id_pk (rows d) @ new"
proof (cases e)
  case GET_products
  with assms show ?thesis by (auto simp: getProducts_def)
next
  case GET_product
  with assms(1) have "route [id_chain] getProductsById req d = Inr (d', res)" by simp
  from route_cases [OF this] show ?thesis
    by (auto dest: getProductsById_same)
next
  case POST_product
  with assms(1) have "route [name_chain, price_chain] createProduct req d = Inr (d', res)"
    by simp
  from route_cases [OF this] show ?thesis
    by (auto dest: createProduct_rows)
next
  case PUT_product
  with assms(1)
  have "route [id_chain, name_chain, price_chain, availability_chain] updateProduct req d
          = Inr (d', res)"
    by simp
  from route_cases [OF this] show ?thesis
    by (auto dest: updateProduct_ids)
next
  case PATCH_product
  with assms(1) have "route [id_chain] updateAvailability req d = Inr (d', res)" by simp
  from route_cases [OF this] show ?thesis
    by (auto dest: updateAvailability_ids)
next
  case DELETE_product
  with assms(2) show ?thesis by simp
qed

lemma serve_ids_in_place:
  "DELETE_product \<notin> fst ` set rs \<Longrightarrow>
   \<exists>new. map id_pk (rows (serve rs d)) = map id_pk (rows d) @ new"
proof (induction rs arbitrary: d)
  case Nil
  then show ?case by simp
next
  case (Cons a rs)
  obtain e req where a: "a = (e, req)" by (cases a)
  from Cons.prems a have e: "e \<noteq> DELETE_product" and rs: "DELETE_product \<notin> fst ` set rs"
    by auto
  show ?case
  proof (cases "router e req d")
    case (Inl x)
    with a Cons.IH [OF rs, of d] show ?thesis by simp
  next
    case (Inr y)
    obtain d' res where y: "y = (d', res)" by (cases y)
    from Inr y e obtain n1 where n1: "map id_pk (rows d') = map id_pk (rows d) @ n1"
      using router_ids_in_place by blast
    from Cons.IH [OF rs, of d'] obtain n2
      where n2: "map id_pk (rows (serve rs d')) = map id_pk (rows d') @ n2"
      by blast
    from a Inr y n1 n2 show ?thesis by simp
  qed
qed


subsection \<open>Failing rules\<close>

lemma chain_errors_set:
  "set (chain_errors req (Chain loc f rules))
     = {m. \<exists>c. (c, m) \<in> set rules \<and> \<not> passes c (field_value req loc f)}"
  by force

lemma validationResult_set:
  "set (validationResult cs req)
     = {m. \<exists>loc f rules c. Chain loc f rules \<in> set cs \<and> (c, m) \<in> set rules
             \<and> \<not> passes c (field_value req loc f)}"
proof (induction cs)
  case Nil
  then show ?case by (simp add: validationResult_def)
next
  case (Cons a cs)
  obtain loc f rules where a: "a = Chain loc f rules" by (cases a)
  have "set (validationResult (a # cs) req)
          = set (chain_errors req a) \<union> set (validationResult cs req)"
    by (simp add: validationResult_Cons)
  also have "\<dots> = {m. \<exists>c. (c, m) \<in> set rules \<and> \<not> passes c (field_value req loc f)}
                 \<union> {m. \<exists>loc f rules c. Chain loc f rules \<in> set cs \<and> (c, m) \<in> set rules
                         \<and> \<not> passes c (field_value req loc f)}"
    unfolding a chain_errors_set Cons.IH ..
  also have "\<dots> = {m. \<exists>loc f rules c. Chain loc f rules \<in> set (a # cs) \<and> (c, m) \<in> set rules
                         \<and> \<not> passes c (field_value req loc f)}"
    unfolding a by auto
  finally show ?case .
qed

lemma id_chain_fails:
  "\<not> isInt (params_id req) \<Longrightarrow> chain_errors req id_chain = [''ID no valido'']"
  by (simp add: id_chain_def field_value_def text_of_def)

lemma route_bad_id:
  assumes "\<not> isInt (params_id req)"
  shows "route (id_chain # cs) h req d
           = Inr (d, \<lparr>status = 400,
                       content = Errors (''ID no valido'' # validationResult cs req)\<rparr>)"
proof -
  have "validationResult (id_chain # cs) req = ''ID no valido'' # validationResult cs req"
    using assms by (simp add: validationResult_Cons id_chain_fails)
  then show ?thesis by (simp add: route_def handleInputErrors_def)
qed

subsection \<open>Well-formed tables\<close>

lemma db_ok_empty: "db_ok empty_db"
  by (simp add: db_ok_def empty_db_def)

lemma db_ok_destroy: "db_ok d \<Longrightarrow> db_ok (destroy p d)"
  by (simp add: db_ok_def destroy_def distinct_map_filter)

lemma updateProduct_db_ok:
  assumes "updateProduct req d = Inr (d', res)" and "db_ok d"
  shows "db_ok d'"
proof -
  from updateProduct_ids [OF assms(1)]
  have "map id_pk (rows d') = map id_pk (rows d)" by simp
  with assms(2) show ?thesis by (simp add: db_ok_def)
qed

lemma updateAvailability_db_ok:
  assumes "updateAvailability req d = Inr (d', res)" and "db_ok d"
  shows "db_ok d'"
  using assms
  by (auto simp: updateAvailability_def Let_def db_ok_save split: sum.splits option.splits)

lemma createProduct_db_ok:
  assumes "createProduct req d = Inr (d', res)" and "db_ok d"
  shows "db_ok d'"
proof -
  from createProduct_rows [OF assms(1)] obtain p
    where "rows d' = rows d @ [p]" and "id_pk p \<notin> id_pk ` set (rows d)"
    by blast
  with assms(2) show ?thesis by (rule db_ok_create)
qed

lemma deleteProduct_db_ok:
  assumes "deleteProduct req d = Inr (d', res)" and "db_ok d"
  shows "db_ok d'"
  using assms
  by (auto simp: deleteProduct_def db_ok_destroy split: sum.splits option.splits)

lemma router_db_ok:
  assumes "router e req d = Inr (d', res)" and "db_ok d"
  shows "db_ok d'"
proof (cases e)
  case GET_products
  with assms show ?thesis by (auto simp: getProducts_def)
next
  case GET_product
  with assms(1) have "route [id_chain] getProductsById req d = Inr (d', res)" by simp
  from route_cases [OF this] assms(2) show ?thesis
    by (auto dest: getProductsById_same)
next
  case POST_product
  with assms(1) have "route [name_chain, price_chain] createProduct req d = Inr (d', res)"
    by simp
  from route_cases [OF this] assms(2) show ?thesis
    by (auto dest: createProduct_db_ok)
next
  case PUT_product
  with assms(1)
  have "route [id_chain, name_chain, price_chain, availability_chain] updateProduct req d
          = Inr (d', res)"
    by simp
  from route_cases [OF this] assms(2) show ?thesis
    by (auto dest: updateProduct_db_ok)
next
  case PATCH_product
  with assms(1) have "route [id_chain] updateAvailability req d = Inr (d', res)" by simp
  from route_cases [OF this] assms(2) show ?thesis
    by (auto dest: updateAvailability_db_ok)
next
  case DELETE_product
  with assms(1) have "route [id_chain] deleteProduct req d = Inr (d', res)" by simp
  from route_cases [OF this] assms(2) show ?thesis
    by (auto dest: deleteProduct_db_ok)
qed

lemma serve_db_ok: "db_ok d \<Longrightarrow> db_ok (serve rs d)"
proof (induction rs arbitrary: d)
  case Nil
  then show ?case by simp
next
  case (Cons a rs)
  obtain e req where a: "a = (e, req)" by (cases a)
  show ?case
  proof (cases "router e req d")
    case (Inl x)
    with a Cons show ?thesis by simp
  next
    case (Inr y)
    obtain d' res where y: "y = (d', res)" by (cases y)
    with Inr Cons.prems have "db_ok d'" by (auto dest: router_db_ok)
    then have "db_ok (serve rs d')" by (rule Cons.IH)
    with a Inr y show ?thesis by simp
  qed
qed

lemma reachable_db_ok: "db_ok (serve rs empty_db)"
  by (rule serve_db_ok) (rule db_ok_empty)

section \<open>Properties of the API\<close>

text \<open>
  C1. For every id that is a valid integer but names no product in storage,
  each of Get-by-id, Update (PUT), Patch-availability and Delete responds with
  status 404 and body \<open>{error: "Producto no Encontrado"}\<close>. This holds of the
  four handlers, and of the routes in front of them: the routes of Get, Patch
  and Delete check the id only, the route of Update reaches its handler when
  the body passes its rules as well.
\<close>

theorem absent_id_not_found:
  assumes "isInt (params_id req)"
    and "\<forall>p \<in> set (rows d). Some (id_pk p) \<noteq> int_of_text (params_id req)"
  shows "getProductsById req d
           = Inr (d, \<lparr>status = 404, content = Error_text ''Producto no Encontrado''\<rparr>)
       \<and> updateProduct req d
           = Inr (d, \<lparr>status = 404, content = Error_text ''Producto no Encontrado''\<rparr>)
       \<and> updateAvailability req d
           = Inr (d, \<lparr>status = 404, content = Error_text ''Producto no Encontrado''\<rparr>)
       \<and> deleteProduct req d
           = Inr (d, \<lparr>status = 404, content = Error_text ''Producto no Encontrado''\<rparr>)
       \<and> router GET_product req d
           = Inr (d, \<lparr>status = 404, content = Error_text ''Producto no Encontrado''\<rparr>)
       \<and> router PATCH_product req d
           = Inr (d, \<lparr>status = 404, content = Error_text ''Producto no Encontrado''\<rparr>)
       \<and> router DELETE_product req d
           = Inr (d, \<lparr>status = 404, content = Error_text ''Producto no Encontrado''\<rparr>)
       \<and> (validationResult [name_chain, price_chain, availability_chain] req = [] \<longrightarrow>
            router PUT_product req d
              = Inr (d, \<lparr>status = 404, content = Error_text ''Producto no Encontrado''\<rparr>))"
proof -
  have nf: "findByPk (params_id req) d = Inr None"
    using assms by (rule findByPk_absent)
  have ok: "validationResult [id_chain] req = []"
    using assms(1) by (simp add: id_chain_passes)
  have g: "getProductsById req d = Inr (d, not_found)"
    by (simp add: getProductsById_def nf)
  have u: "updateProduct req d = Inr (d, not_found)"
    by (simp add: updateProduct_def nf)
  have a: "updateAvailability req d = Inr (d, not_found)"
    by (simp add: updateAvailability_def nf)
  have x: "deleteProduct req d = Inr (d, not_found)"
    by (simp add: deleteProduct_def nf)
  have put: "router PUT_product req d = Inr (d, not_found)"
    if "validationResult [name_chain, price_chain, availability_chain] req = []"
  proof -
    have "validationResult [id_chain, name_chain, price_chain, availability_chain] req = []"
      using ok that by (simp add: validationResult_def)
    then show ?thesis by (simp add: route_pass u)
  qed
  show ?thesis
    using g u a x put by (simp add: route_pass ok not_found_def)
qed

theorem absent_id_not_found_witness:
  "isInt (params_id put_7)
   \<and> list_all (\<lambda>p. Some (id_pk p) \<noteq> int_of_text (params_id put_7)) (rows shop)
   \<and> validationResult [name_chain, price_chain, availability_chain] put_7 = []
   \<and> getProductsById put_7 shop
       = Inr (shop, \<lparr>status = 404, content = Error_text ''Producto no Encontrado''\<rparr>)
   \<and> router PUT_product put_7 shop
       = Inr (shop, \<lparr>status = 404, content = Error_text ''Producto no Encontrado''\<rparr>)"
proof -
  have h1: "isInt (params_id put_7)" by code_simp
  have h2: "\<forall>p \<in> set (rows shop). Some (id_pk p) \<noteq> int_of_text (params_id put_7)"
    by code_simp
  have h3: "validationResult [name_chain, price_chain, availability_chain] put_7 = []"
    by code_simp
  from absent_id_not_found [OF h1 h2] h1 h2 h3 show ?thesis by (simp add: list_all_iff)
qed

text \<open>
  C2. For every stored product, one Patch-availability request sets the
  availability to the negation of its stored value, and a second Patch request
  on the same product restores the original value: the table is then the one
  before the first request.
\<close>

theorem patch_twice_restores:
  assumes "db_ok d" and "p \<in> set (rows d)"
    and "int_of_text (params_id req) = Some (id_pk p)"
  shows "\<exists>d'. router PATCH_product req d
                = Inr (d', \<lparr>status = 200,
                            content = Data_product (p\<lparr>availability := \<not> availability p\<rparr>)\<rparr>)
            \<and> findByPk (params_id req) d' = Inr (Some (p\<lparr>availability := \<not> availability p\<rparr>))
            \<and> router PATCH_product req d'
                = Inr (d, \<lparr>status = 200, content = Data_product p\<rparr>)"
proof -
  let ?p' = "p\<lparr>availability := \<not> availability p\<rparr>"
  have int: "isInt (params_id req)"
    using assms(3) by (rule int_of_text_Some_isInt)
  have f: "findByPk (params_id req) d = Inr (Some p)"
    using assms by (rule findByPk_stored)
  have first: "router PATCH_product req d
                 = Inr (save ?p' d, \<lparr>status = 200, content = Data_product ?p'\<rparr>)"
    using int f by (simp add: route_id_only updateAvailability_found)
  have f': "findByPk (params_id req) (save ?p' d) = Inr (Some ?p')"
    using f by (rule findByPk_save) simp
  have twice: "?p'\<lparr>availability := \<not> availability ?p'\<rparr> = p" by simp
  have "router PATCH_product req (save ?p' d)
          = Inr (save p (save ?p' d), \<lparr>status = 200, content = Data_product p\<rparr>)"
    using int updateAvailability_found [OF f'] by (simp add: route_id_only twice)
  moreover have "save p (save ?p' d) = d"
    using assms(1,2) by (simp add: save_twice save_stored)
  ultimately show ?thesis using first f' by simp
qed


theorem patch_twice_restores_witness:
  "db_ok shop \<and> monitor \<in> set (rows shop)
   \<and> int_of_text (params_id patch_1) = Some (id_pk monitor)
   \<and> router PATCH_product patch_1 shop
       = Inr (\<lparr>rows = [monitor\<lparr>availability := False\<rparr>, teclado], next_id = 3\<rparr>,
              \<lparr>status = 200, content = Data_product (monitor\<lparr>availability := False\<rparr>)\<rparr>)
   \<and> router PATCH_product patch_1
         \<lparr>rows = [monitor\<lparr>availability := False\<rparr>, teclado], next_id = 3\<rparr>
       = Inr (shop, \<lparr>status = 200, content = Data_product monitor\<rparr>)"
proof -
  have h1: "db_ok shop" by code_simp
  have h2: "monitor \<in> set (rows shop)" by code_simp
  have h3: "int_of_text (params_id patch_1) = Some (id_pk monitor)" by code_simp
  have first: "router PATCH_product patch_1 shop
       = Inr (\<lparr>rows = [monitor\<lparr>availability := False\<rparr>, teclado], next_id = 3\<rparr>,
              \<lparr>status = 200, content = Data_product (monitor\<lparr>availability := False\<rparr>)\<rparr>)"
    by code_simp
  from patch_twice_restores [OF h1 h2 h3] first h1 h2 h3 show ?thesis by auto
qed

text \<open>
  C3, as amended. For every Create request that passes validation and is
  answered, the response is 201 with the created product, and a subsequent
  Get-by-id with the id returned by Create responds 200 with that product: its
  name and price are the ones supplied to Create, and its availability is true
  when the body supplies no availability and the supplied value otherwise. A
  validated request is answered whenever its body supplies no id, the next
  generated key is not in the table and a supplied availability denotes a
  truth value. The claim as stated, with availability true for every
  validated request, fails for a body that carries \<open>availability: false\<close>.
\<close>

theorem create_then_get:
  assumes "validationResult [name_chain, price_chain] req = []"
  shows "(router POST_product req d = Inr (d', res) \<longrightarrow>
           (\<exists>p. res = \<lparr>status = 201, content = Data_product p\<rparr>
              \<and> name p = text_of (map_of (body req) ''name'')
              \<and> js_number (map_of (body req) ''price'') = Finite (price p)
              \<and> (case map_of (body req) ''availability'' of
                    None \<Rightarrow> availability p = True
                  | Some v \<Rightarrow> availability_column v = Some (availability p))
              \<and> router GET_product \<lparr>params_id = show_int (id_pk p), body = b\<rparr> d'
                  = Inr (d', \<lparr>status = 200, content = Data_product p\<rparr>)
              \<and> (\<forall>g. int_of_text (params_id g) = Some (id_pk p) \<longrightarrow>
                    router GET_product g d'
                      = Inr (d', \<lparr>status = 200, content = Data_product p\<rparr>))))
       \<and> (map_of (body req) ''id'' = None \<and> next_id d \<notin> id_pk ` set (rows d)
            \<and> (\<forall>v. map_of (body req) ''availability'' = Some v \<longrightarrow>
                   availability_column v \<noteq> None) \<longrightarrow>
           (\<exists>p d1. router POST_product req d
                      = Inr (d1, \<lparr>status = 201, content = Data_product p\<rparr>)
                \<and> id_pk p = next_id d))"
proof -
  from assms have v: "notEmpty (text_of (map_of (body req) ''name''))"
    "isNumeric (text_of (map_of (body req) ''price''))"
    "greater_than_zero (map_of (body req) ''price'')"
    by (simp_all add: post_chains_ok)
  have post: "router POST_product req d = createProduct req d"
    using assms by (simp add: route_pass)
  have answered: "\<exists>p. res = \<lparr>status = 201, content = Data_product p\<rparr>
              \<and> name p = text_of (map_of (body req) ''name'')
              \<and> js_number (map_of (body req) ''price'') = Finite (price p)
              \<and> (case map_of (body req) ''availability'' of
                    None \<Rightarrow> availability p = True
                  | Some v \<Rightarrow> availability_column v = Some (availability p))
              \<and> router GET_product \<lparr>params_id = show_int (id_pk p), body = b\<rparr> d'
                  = Inr (d', \<lparr>status = 200, content = Data_product p\<rparr>)
              \<and> (\<forall>g. int_of_text (params_id g) = Some (id_pk p) \<longrightarrow>
                    router GET_product g d'
                      = Inr (d', \<lparr>status = 200, content = Data_product p\<rparr>))"
    if r: "router POST_product req d = Inr (d', res)"
  proof -
    from r post have "createProduct req d = Inr (d', res)" by simp
    from createProduct_rows [OF this] obtain p
      where res: "res = \<lparr>status = 201, content = Data_product p\<rparr>"
        and c: "create (body req) d = Inr (p, d')"
        and rws: "rows d' = rows d @ [p]"
        and new: "id_pk p \<notin> id_pk ` set (rows d)"
      by blast
    from create_validated [OF v c]
    have np: "name p = text_of (map_of (body req) ''name'')"
      "js_number (map_of (body req) ''price'') = Finite (price p)"
      by simp_all
    have av: "case map_of (body req) ''availability'' of
                None \<Rightarrow> availability p = True
              | Some v \<Rightarrow> availability_column v = Some (availability p)"
      using create_Inr(5) [OF c]
      by (cases "map_of (body req) ''availability''") (auto simp: assign_def)
    have found: "find (\<lambda>q. id_pk q = id_pk p) (rows d') = Some p"
      using find_new [OF new] rws by simp
    have get: "router GET_product g d' = Inr (d', \<lparr>status = 200, content = Data_product p\<rparr>)"
      if g: "int_of_text (params_id g) = Some (id_pk p)" for g
    proof -
      have "isInt (params_id g)" using g by (rule int_of_text_Some_isInt)
      moreover have "findByPk (params_id g) d' = Inr (Some p)"
        using g found by (simp add: findByPk_def)
      ultimately show ?thesis
        by (simp add: route_id_only getProductsById_found)
    qed
    have "router GET_product \<lparr>params_id = show_int (id_pk p), body = b\<rparr> d'
            = Inr (d', \<lparr>status = 200, content = Data_product p\<rparr>)"
      by (rule get) (simp add: int_of_text_show_int)
    with res np av get show ?thesis by blast
  qed
  have total: "\<exists>p d1. router POST_product req d
                      = Inr (d1, \<lparr>status = 201, content = Data_product p\<rparr>)
                \<and> id_pk p = next_id d"
    if noid: "map_of (body req) ''id'' = None"
      and fresh: "next_id d \<notin> id_pk ` set (rows d)"
      and conv: "\<forall>v. map_of (body req) ''availability'' = Some v \<longrightarrow>
                   availability_column v \<noteq> None"
  proof -
    from conv obtain a
      where a: "assign availability_column (map_of (body req) ''availability'') True = Some a"
      by (cases "map_of (body req) ''availability''") (auto simp: assign_def)
    from create_answers [OF v a noid fresh] obtain p d1
      where "create (body req) d = Inr (p, d1)" and "id_pk p = next_id d"
      by blast
    with post show ?thesis by (simp add: createProduct_def)
  qed
  from answered total show ?thesis by blast
qed

theorem create_then_get_witness:
  "validationResult [name_chain, price_chain] post_monitor = []
   \<and> map_of (body post_monitor) ''id'' = None
   \<and> map_of (body post_monitor) ''availability'' = None
   \<and> next_id empty_db \<notin> id_pk ` set (rows empty_db)
   \<and> router POST_product post_monitor empty_db
       = Inr (\<lparr>rows = [monitor], next_id = 2\<rparr>,
              \<lparr>status = 201, content = Data_product monitor\<rparr>)
   \<and> router GET_product get_1 \<lparr>rows = [monitor], next_id = 2\<rparr>
       = Inr (\<lparr>rows = [monitor], next_id = 2\<rparr>,
              \<lparr>status = 200, content = Data_product monitor\<rparr>)"
proof -
  have h: "validationResult [name_chain, price_chain] post_monitor = []" by code_simp
  have i: "map_of (body post_monitor) ''id'' = None" by code_simp
  have a: "map_of (body post_monitor) ''availability'' = None" by code_simp
  have f: "next_id empty_db \<notin> id_pk ` set (rows empty_db)" by (simp add: empty_db_def)
  have post: "router POST_product post_monitor empty_db
       = Inr (\<lparr>rows = [monitor], next_id = 2\<rparr>,
              \<lparr>status = 201, content = Data_product monitor\<rparr>)"
    by code_simp
  have key: "int_of_text (params_id get_1) = Some (id_pk monitor)" by code_simp
  from create_then_get [OF h, where d = empty_db
      and d' = "\<lparr>rows = [monitor], next_id = 2\<rparr>"
      and res = "\<lparr>status = 201, content = Data_product monitor\<rparr>"]
    post key h i a f
  show ?thesis by auto
qed

text \<open>
  The request of the specification's example with \<open>availability: false\<close>
  added passes validation, and the product that Create returns and Get reads
  back is not available.
\<close>

theorem create_then_get_counterexample:
  "validationResult [name_chain, price_chain] post_unavailable = []
   \<and> router POST_product post_unavailable empty_db
       = Inr (\<lparr>rows = [\<lparr>id_pk = 1, name = ''Monitor'', price = 300, availability = False\<rparr>],
                next_id = 2\<rparr>,
              \<lparr>status = 201,
                content = Data_product
                  \<lparr>id_pk = 1, name = ''Monitor'', price = 300, availability = False\<rparr>\<rparr>)
   \<and> router GET_product get_1
         \<lparr>rows = [\<lparr>id_pk = 1, name = ''Monitor'', price = 300, availability = False\<rparr>],
            next_id = 2\<rparr>
       = Inr (\<lparr>rows = [\<lparr>id_pk = 1, name = ''Monitor'', price = 300, availability = False\<rparr>],
                next_id = 2\<rparr>,
              \<lparr>status = 200,
                content = Data_product
                  \<lparr>id_pk = 1, name = ''Monitor'', price = 300, availability = False\<rparr>\<rparr>)
   \<and> availability \<lparr>id_pk = 1, name = ''Monitor'', price = 300, availability = False\<rparr> \<noteq> True"
  by code_simp

text \<open>
  C4. No operation alters the id of an existing product. A request to the
  Update or Patch route leaves the primary key of every row as it was, also
  when the body of the PUT carries an \<open>id\<close> field, and the product it answers
  with has the id of the path; Create only appends a row, under a key that no
  stored row has (the generated one when the body supplies no id), Delete only
  removes rows, the two Get routes change nothing. Along every sequence of
  requests without a Delete, the rows present at the start keep their ids in
  place.
\<close>

theorem ids_never_change:
  "(router e req d = Inr (d', res) \<longrightarrow>
      (e \<in> {GET_products, GET_product} \<longrightarrow> d' = d)
    \<and> (e \<in> {PUT_product, PATCH_product} \<longrightarrow>
          map id_pk (rows d') = map id_pk (rows d) \<and> next_id d' = next_id d)
    \<and> (e = POST_product \<longrightarrow>
          d' = d \<or> (\<exists>p. rows d' = rows d @ [p] \<and> id_pk p \<notin> id_pk ` set (rows d)
                        \<and> (map_of (body req) ''id'' = None \<longrightarrow> id_pk p = next_id d)))
    \<and> (e = DELETE_product \<longrightarrow>
          d' = d \<or> (\<exists>k. rows d' = filter (\<lambda>q. id_pk q \<noteq> k) (rows d)))
    \<and> (e = PUT_product \<and> status res = 200 \<longrightarrow>
          (\<exists>p. content res = Data_product p
             \<and> int_of_text (params_id req) = Some (id_pk p) \<and> p \<in> set (rows d'))))
   \<and> (DELETE_product \<notin> fst ` set rs \<longrightarrow>
        (\<exists>new. map id_pk (rows (serve rs d)) = map id_pk (rows d) @ new))"
proof -
  have step: "(e \<in> {GET_products, GET_product} \<longrightarrow> d' = d)
    \<and> (e \<in> {PUT_product, PATCH_product} \<longrightarrow>
          map id_pk (rows d') = map id_pk (rows d) \<and> next_id d' = next_id d)
    \<and> (e = POST_product \<longrightarrow>
          d' = d \<or> (\<exists>p. rows d' = rows d @ [p] \<and> id_pk p \<notin> id_pk ` set (rows d)
                        \<and> (map_of (body req) ''id'' = None \<longrightarrow> id_pk p = next_id d)))
    \<and> (e = DELETE_product \<longrightarrow>
          d' = d \<or> (\<exists>k. rows d' = filter (\<lambda>q. id_pk q \<noteq> k) (rows d)))
    \<and> (e = PUT_product \<and> status res = 200 \<longrightarrow>
          (\<exists>p. content res = Data_product p
             \<and> int_of_text (params_id req) = Some (id_pk p) \<and> p \<in> set (rows d')))"
    if r: "router e req d = Inr (d', res)"
  proof (cases e)
    case GET_products
    with r show ?thesis by (auto simp: getProducts_def)
  next
    case GET_product
    with r have "route [id_chain] getProductsById req d = Inr (d', res)" by simp
    from route_cases [OF this] GET_product show ?thesis
      by (auto dest: getProductsById_same)
  next
    case POST_product
    with r have "route [name_chain, price_chain] createProduct req d = Inr (d', res)"
      by simp
    from route_cases [OF this] POST_product show ?thesis
      by (auto dest: createProduct_rows)
  next
    case PUT_product
    with r
    have "route [id_chain, name_chain, price_chain, availability_chain] updateProduct req d
            = Inr (d', res)"
      by simp
    from route_cases [OF this] PUT_product show ?thesis
      by (auto dest: updateProduct_ids)
  next
    case PATCH_product
    with r have "route [id_chain] updateAvailability req d = Inr (d', res)" by simp
    from route_cases [OF this] PATCH_product show ?thesis
      by (auto dest: updateAvailability_ids)
  next
    case DELETE_product
    with r have "route [id_chain] deleteProduct req d = Inr (d', res)" by simp
    from route_cases [OF this] DELETE_product show ?thesis
      by (auto dest: deleteProduct_rows)
  qed
  with serve_ids_in_place [of rs d] show ?thesis by blast
qed


theorem ids_never_change_witness:
  "router PUT_product put_1 shop
     = Inr (\<lparr>rows = [monitor_curvo, teclado], next_id = 3\<rparr>,
            \<lparr>status = 200, content = Data_product monitor_curvo\<rparr>)
   \<and> map_of (body put_1) ''id'' = Some (JNum 9)
   \<and> map id_pk (rows shop) = [1, 2]
   \<and> map id_pk [monitor_curvo, teclado] = [1, 2]
   \<and> int_of_text (params_id put_1) = Some (id_pk monitor_curvo)
   \<and> DELETE_product \<notin> fst ` set [(POST_product, post_monitor), (PUT_product, put_1),
                                     (PATCH_product, patch_1)]
   \<and> map id_pk (rows (serve [(POST_product, post_monitor), (PUT_product, put_1),
                               (PATCH_product, patch_1)] shop)) = [1, 2, 3]"
proof -
  have r: "router PUT_product put_1 shop
     = Inr (\<lparr>rows = [monitor_curvo, teclado], next_id = 3\<rparr>,
            \<lparr>status = 200, content = Data_product monitor_curvo\<rparr>)"
    by code_simp
  have b: "map_of (body put_1) ''id'' = Some (JNum 9)" by code_simp
  have i: "map id_pk (rows shop) = [1, 2]" by code_simp
  have n: "DELETE_product \<notin> fst ` set [(POST_product, post_monitor), (PUT_product, put_1),
                                     (PATCH_product, patch_1)]"
    by simp
  have s: "map id_pk (rows (serve [(POST_product, post_monitor), (PUT_product, put_1),
                               (PATCH_product, patch_1)] shop)) = [1, 2, 3]"
    by code_simp
  from ids_never_change [where e = PUT_product and req = put_1 and d = shop
      and d' = "\<lparr>rows = [monitor_curvo, teclado], next_id = 3\<rparr>"
      and res = "\<lparr>status = 200, content = Data_product monitor_curvo\<rparr>"
      and rs = "[(POST_product, post_monitor), (PUT_product, put_1), (PATCH_product, patch_1)]"]
    r b i n s
  show ?thesis by simp
qed

text \<open>
  C5. After any sequence of requests served through the router, starting from
  a table whose products have a price above zero and a non-empty name, every
  stored product has a price strictly greater than zero and a non-empty name.
\<close>

theorem stored_products_stay_valid:
  assumes "\<forall>p \<in> set (rows d). 0 < price p \<and> name p \<noteq> []"
  shows "\<forall>p \<in> set (rows (serve rs d)). 0 < price p \<and> name p \<noteq> []"
  using serve_valid [of d rs] assms by (simp add: list_all_iff valid_product_def)

theorem stored_products_stay_valid_witness:
  "list_all (\<lambda>p. 0 < price p \<and> name p \<noteq> []) (rows empty_db)
   \<and> serve [(POST_product, post_monitor), (PUT_product, put_1), (PATCH_product, patch_1),
             (POST_product, put_7), (POST_product, patch_1)] empty_db
      = \<lparr>rows = [\<lparr>id_pk = 1, name = ''Monitor Curvo'', price = 3999 / 10, availability = True\<rparr>,
                 \<lparr>id_pk = 2, name = ''Mouse'', price = 50, availability = False\<rparr>],
         next_id = 3\<rparr>
   \<and> list_all (\<lambda>p. 0 < price p \<and> name p \<noteq> [])
        [\<lparr>id_pk = 1, name = ''Monitor Curvo'', price = 3999 / 10, availability = True\<rparr>,
         \<lparr>id_pk = 2, name = ''Mouse'', price = 50, availability = False\<rparr>]"
proof -
  have h: "\<forall>p \<in> set (rows empty_db). 0 < price p \<and> name p \<noteq> []"
    by (simp add: empty_db_def)
  have s: "serve [(POST_product, post_monitor), (PUT_product, put_1), (PATCH_product, patch_1),
             (POST_product, put_7), (POST_product, patch_1)] empty_db
      = \<lparr>rows = [\<lparr>id_pk = 1, name = ''Monitor Curvo'', price = 3999 / 10, availability = True\<rparr>,
                 \<lparr>id_pk = 2, name = ''Mouse'', price = 50, availability = False\<rparr>],
         next_id = 3\<rparr>"
    by code_simp
  from stored_products_stay_valid [OF h, of "[(POST_product, post_monitor), (PUT_product, put_1),
      (PATCH_product, patch_1), (POST_product, put_7), (POST_product, patch_1)]"] h s
  show ?thesis by (simp add: list_all_iff)
qed

text \<open>
  C6. The validation middleware: all rules of all chains are evaluated; if one
  or more fail, the response has status 400 and a body enumerating every
  failing rule's message, the handler is not invoked and the table is
  untouched; otherwise the handler runs on the unchanged request. In
  particular, a request with a non-integer id on the Get-by-id, Update, Patch
  or Delete route is answered with 400 and the message of the id rule.
\<close>

theorem validation_answers_400:
  "handleInputErrors errors h req d
     = (if errors \<noteq> [] then Inr (d, \<lparr>status = 400, content = Errors errors\<rparr>) else h req d)
   \<and> route cs h req d
     = (if validationResult cs req \<noteq> []
        then Inr (d, \<lparr>status = 400, content = Errors (validationResult cs req)\<rparr>)
        else h req d)
   \<and> set (validationResult cs req)
     = {m. \<exists>loc f rules c. Chain loc f rules \<in> set cs \<and> (c, m) \<in> set rules
             \<and> \<not> passes c (field_value req loc f)}
   \<and> (\<not> isInt (params_id req)
        \<and> e \<in> {GET_product, PUT_product, PATCH_product, DELETE_product} \<longrightarrow>
        (\<exists>errs. router e req d = Inr (d, \<lparr>status = 400, content = Errors errs\<rparr>)
           \<and> ''ID no valido'' \<in> set errs))"
proof -
  have bad: "\<exists>errs. router e req d = Inr (d, \<lparr>status = 400, content = Errors errs\<rparr>)
                 \<and> ''ID no valido'' \<in> set errs"
    if "\<not> isInt (params_id req)"
      and "e \<in> {GET_product, PUT_product, PATCH_product, DELETE_product}"
    using that by (auto simp: route_bad_id)
  show ?thesis
    using bad
    by (simp add: handleInputErrors_def route_def validationResult_set)
qed

theorem validation_answers_400_witness:
  "\<not> isInt (params_id get_abc)
   \<and> router GET_product get_abc shop
       = Inr (shop, \<lparr>status = 400, content = Errors [''ID no valido'']\<rparr>)
   \<and> router PUT_product get_abc shop
       = Inr (shop, \<lparr>status = 400,
                     content = Errors [''ID no valido'',
                                       ''El nombre del Producto no puede ir vacio'',
                                       ''Precio no valido'',
                                       ''Valor para disponibilidad no v'' @ [CHR 0xC3, CHR 0xA1] @ ''lido'']\<rparr>)
   \<and> route [id_chain] getProductsById get_1 shop = getProductsById get_1 shop"
proof -
  have h: "\<not> isInt (params_id get_abc)" by code_simp
  have g: "router GET_product get_abc shop
       = Inr (shop, \<lparr>status = 400, content = Errors [''ID no valido'']\<rparr>)"
    by code_simp
  have p: "router PUT_product get_abc shop
       = Inr (shop, \<lparr>status = 400,
                     content = Errors [''ID no valido'',
                                       ''El nombre del Producto no puede ir vacio'',
                                       ''Precio no valido'',
                                       ''Valor para disponibilidad no v'' @ [CHR 0xC3, CHR 0xA1] @ ''lido'']\<rparr>)"
    by code_simp
  have v: "validationResult [id_chain] get_1 = []" by code_simp
  from validation_answers_400 [where cs = "[id_chain]" and h = getProductsById
      and req = get_1 and d = shop]
    validation_answers_400 [where req = get_abc and d = shop and e = GET_product]
    v h g p
  show ?thesis by simp
qed

text \<open>
  C7. For every storage state, the List operation responds 200 with body
  \<open>{data: [...]}\<close> containing all stored products, each as often as it is
  stored, ordered by id descending.
\<close>

theorem list_all_descending:
  "router GET_products req d = Inr (d, \<lparr>status = 200, content = Data_products (findAll d)\<rparr>)
   \<and> mset (findAll d) = mset (rows d)
   \<and> sorted_wrt (\<lambda>p q. id_pk q \<le> id_pk p) (findAll d)"
  by (simp add: getProducts_def findAll_mset findAll_descending)

theorem list_all_descending_witness:
  "router GET_products get_1 shop
     = Inr (shop, \<lparr>status = 200, content = Data_products [teclado, monitor]\<rparr>)
   \<and> mset [teclado, monitor] = mset (rows shop)
   \<and> sorted_wrt (\<lambda>p q. id_pk q \<le> id_pk p) [teclado, monitor]"
proof -
  have "findAll shop = [teclado, monitor]" by code_simp
  with list_all_descending [of get_1 shop] show ?thesis by simp
qed

text \<open>
  C8. For every stored product, Delete removes it and responds 200 with body
  \<open>{data: "Producto Eliminado"}\<close>; every later Get-by-id with the same id
  responds 404.
\<close>

theorem delete_then_not_found:
  assumes "p \<in> set (rows d)" and "int_of_text (params_id req) = Some (id_pk p)"
  shows "\<exists>d'. router DELETE_product req d
                = Inr (d', \<lparr>status = 200, content = Data_text ''Producto Eliminado''\<rparr>)
            \<and> rows d' = filter (\<lambda>q. id_pk q \<noteq> id_pk p) (rows d)
            \<and> p \<notin> set (rows d')
            \<and> (\<forall>r. int_of_text (params_id r) = Some (id_pk p) \<longrightarrow>
                  router GET_product r d'
                    = Inr (d', \<lparr>status = 404, content = Error_text ''Producto no Encontrado''\<rparr>))"
proof -
  have int: "isInt (params_id req)"
    using assms(2) by (rule int_of_text_Some_isInt)
  from findByPk_member [OF assms] obtain q
    where q: "findByPk (params_id req) d = Inr (Some q)" and id: "id_pk q = id_pk p"
    by blast
  have del: "router DELETE_product req d
               = Inr (destroy q d, \<lparr>status = 200, content = Data_text ''Producto Eliminado''\<rparr>)"
    using int q by (simp add: route_id_only deleteProduct_def)
  have rws: "rows (destroy q d) = filter (\<lambda>q. id_pk q \<noteq> id_pk p) (rows d)"
    using id by (simp add: destroy_def)
  have gone: "p \<notin> set (rows (destroy q d))"
    by (simp add: rws)
  have get: "router GET_product r (destroy q d) = Inr (destroy q d, not_found)"
    if r: "int_of_text (params_id r) = Some (id_pk p)" for r
  proof -
    have "isInt (params_id r)" using r by (rule int_of_text_Some_isInt)
    moreover have "findByPk (params_id r) (destroy q d) = Inr None"
      using r id by (simp add: findByPk_destroy)
    ultimately show ?thesis by (simp add: route_id_only getProductsById_def)
  qed
  show ?thesis
    using del rws gone get by (simp add: not_found_def)
qed


theorem delete_then_not_found_witness:
  "monitor \<in> set (rows shop) \<and> int_of_text (params_id patch_1) = Some (id_pk monitor)
   \<and> int_of_text (params_id get_1) = Some (id_pk monitor)
   \<and> router DELETE_product patch_1 shop
       = Inr (\<lparr>rows = [teclado], next_id = 3\<rparr>,
              \<lparr>status = 200, content = Data_text ''Producto Eliminado''\<rparr>)
   \<and> router GET_product get_1 \<lparr>rows = [teclado], next_id = 3\<rparr>
       = Inr (\<lparr>rows = [teclado], next_id = 3\<rparr>,
              \<lparr>status = 404, content = Error_text ''Producto no Encontrado''\<rparr>)"
proof -
  have h1: "monitor \<in> set (rows shop)" by code_simp
  have h2: "int_of_text (params_id patch_1) = Some (id_pk monitor)" by code_simp
  have h3: "int_of_text (params_id get_1) = Some (id_pk monitor)" by code_simp
  have del: "router DELETE_product patch_1 shop
       = Inr (\<lparr>rows = [teclado], next_id = 3\<rparr>,
              \<lparr>status = 200, content = Data_text ''Producto Eliminado''\<rparr>)"
    by code_simp
  from delete_then_not_found [OF h1 h2] del h1 h2 h3 show ?thesis by auto
qed

text \<open>
  C9. For every Update (PUT), Patch-availability or Delete request whose id
  names no stored product, the table after the 404 response is the table
  before the request. Conversely, whenever one of the three routes answers
  404, the id named no product and the table is unchanged.
\<close>

theorem not_found_is_atomic:
  "(findByPk (params_id req) d = Inr None \<longrightarrow>
      updateProduct req d = Inr (d, not_found)
    \<and> updateAvailability req d = Inr (d, not_found)
    \<and> deleteProduct req d = Inr (d, not_found))
   \<and> (e \<in> {PUT_product, PATCH_product, DELETE_product} \<and> router e req d = Inr (d', res)
        \<and> status res = 404 \<longrightarrow> d' = d \<and> findByPk (params_id req) d = Inr None)"
proof -
  have a: "updateProduct req d = Inr (d, not_found)
         \<and> updateAvailability req d = Inr (d, not_found)
         \<and> deleteProduct req d = Inr (d, not_found)"
    if "findByPk (params_id req) d = Inr None"
    using that by (simp add: updateProduct_def updateAvailability_def deleteProduct_def)
  have b: "d' = d \<and> findByPk (params_id req) d = Inr None"
    if e: "e \<in> {PUT_product, PATCH_product, DELETE_product}"
      and r: "router e req d = Inr (d', res)" and s: "status res = 404"
  proof -
    from e consider "e = PUT_product" | "e = PATCH_product" | "e = DELETE_product" by auto
    then show ?thesis
    proof cases
      case 1
      with r obtain cs where "route cs updateProduct req d = Inr (d', res)" by simp
      then have "updateProduct req d = Inr (d', res)" using s by (rule route_404)
      with s show ?thesis by (rule handler_404_cases(1))
    next
      case 2
      with r obtain cs where "route cs updateAvailability req d = Inr (d', res)" by simp
      then have "updateAvailability req d = Inr (d', res)" using s by (rule route_404)
      with s show ?thesis by (rule handler_404_cases(2))
    next
      case 3
      with r obtain cs where "route cs deleteProduct req d = Inr (d', res)" by simp
      then have "deleteProduct req d = Inr (d', res)" using s by (rule route_404)
      with s show ?thesis by (rule handler_404_cases(3))
    qed
  qed
  from a b show ?thesis by blast
qed

theorem not_found_is_atomic_witness:
  "findByPk (params_id put_7) shop = Inr None
   \<and> updateProduct put_7 shop = Inr (shop, not_found)
   \<and> updateAvailability put_7 shop = Inr (shop, not_found)
   \<and> deleteProduct put_7 shop = Inr (shop, not_found)
   \<and> router PUT_product put_7 shop = Inr (shop, not_found)
   \<and> status not_found = 404"
proof -
  have h: "findByPk (params_id put_7) shop = Inr None" by code_simp
  have r: "router PUT_product put_7 shop = Inr (shop, not_found)" by code_simp
  have s: "status not_found = 404" by code_simp
  from not_found_is_atomic [of put_7 shop PUT_product shop not_found] h r s
  show ?thesis by simp
qed

text \<open>
  C10. A Patch-availability request ignores its body: handler and route give
  the same result whatever the body is. On a stored product the answer carries
  the product with its availability negated and its id, name and price as
  they were; that product replaces the stored one and no other row changes.
\<close>

theorem patch_ignores_body:
  "updateAvailability (req\<lparr>body := b\<rparr>) d = updateAvailability req d
   \<and> router PATCH_product (req\<lparr>body := b\<rparr>) d = router PATCH_product req d
   \<and> (db_ok d \<and> p \<in> set (rows d) \<and> int_of_text (params_id req) = Some (id_pk p) \<longrightarrow>
        (\<exists>p' d'. router PATCH_product (req\<lparr>body := b\<rparr>) d
                    = Inr (d', \<lparr>status = 200, content = Data_product p'\<rparr>)
              \<and> availability p' = (\<not> availability p)
              \<and> id_pk p' = id_pk p \<and> name p' = name p \<and> price p' = price p
              \<and> rows d' = map (\<lambda>q. if id_pk q = id_pk p then p' else q) (rows d)
              \<and> next_id d' = next_id d))"
proof -
  have "\<exists>p' d'. router PATCH_product (req\<lparr>body := b\<rparr>) d
                    = Inr (d', \<lparr>status = 200, content = Data_product p'\<rparr>)
              \<and> availability p' = (\<not> availability p)
              \<and> id_pk p' = id_pk p \<and> name p' = name p \<and> price p' = price p
              \<and> rows d' = map (\<lambda>q. if id_pk q = id_pk p then p' else q) (rows d)
              \<and> next_id d' = next_id d"
    if ok: "db_ok d" and mem: "p \<in> set (rows d)"
      and key: "int_of_text (params_id req) = Some (id_pk p)"
  proof -
    let ?p' = "p\<lparr>availability := \<not> availability p\<rparr>"
    have "isInt (params_id req)" using key by (rule int_of_text_Some_isInt)
    moreover have "findByPk (params_id req) d = Inr (Some p)"
      using ok mem key by (rule findByPk_stored)
    ultimately have "router PATCH_product req d
        = Inr (save ?p' d, \<lparr>status = 200, content = Data_product ?p'\<rparr>)"
      by (simp add: route_id_only updateAvailability_found)
    then have "router PATCH_product (req\<lparr>body := b\<rparr>) d
        = Inr (save ?p' d, \<lparr>status = 200, content = Data_product ?p'\<rparr>)"
      by (simp add: route_patch_body)
    moreover have "rows (save ?p' d) = map (\<lambda>q. if id_pk q = id_pk p then ?p' else q) (rows d)"
      by (simp add: save_def)
    moreover have "next_id (save ?p' d) = next_id d"
      by (rule save_next_id)
    ultimately show ?thesis by (intro exI [of _ ?p'] exI [of _ "save ?p' d"]) simp
  qed
  then show ?thesis
    by (simp add: updateAvailability_body route_patch_body)
qed

theorem patch_ignores_body_witness:
  "db_ok shop \<and> teclado \<in> set (rows shop)
   \<and> int_of_text (params_id \<lparr>params_id = ''2'', body = []\<rparr>) = Some (id_pk teclado)
   \<and> router PATCH_product \<lparr>params_id = ''2'', body = [(''availability'', JBool False), (''price'', JNum 0)]\<rparr> shop
      = Inr (\<lparr>rows = [monitor, teclado\<lparr>availability := True\<rparr>], next_id = 3\<rparr>,
             \<lparr>status = 200, content = Data_product (teclado\<lparr>availability := True\<rparr>)\<rparr>)
   \<and> router PATCH_product \<lparr>params_id = ''2'', body = []\<rparr> shop
      = Inr (\<lparr>rows = [monitor, teclado\<lparr>availability := True\<rparr>], next_id = 3\<rparr>,
             \<lparr>status = 200, content = Data_product (teclado\<lparr>availability := True\<rparr>)\<rparr>)"
proof -
  have h1: "db_ok shop" by code_simp
  have h2: "teclado \<in> set (rows shop)" by code_simp
  have h3: "int_of_text (params_id \<lparr>params_id = ''2'', body = []\<rparr>) = Some (id_pk teclado)"
    by code_simp
  have r: "router PATCH_product \<lparr>params_id = ''2'', body = []\<rparr> shop
      = Inr (\<lparr>rows = [monitor, teclado\<lparr>availability := True\<rparr>], next_id = 3\<rparr>,
             \<lparr>status = 200, content = Data_product (teclado\<lparr>availability := True\<rparr>)\<rparr>)"
    by code_simp
  from patch_ignores_body [where req = "\<lparr>params_id = ''2'', body = []\<rparr>"
         and b = "[(''availability'', JBool False), (''price'', JNum 0)]"
         and d = shop and p = teclado]
    h1 h2 h3 r
  show ?thesis by simp
qed

end
